theory Spec2Isabelle
  imports Complex_Main "HOL-Library.Word"
begin

section \<open>The bundle optimizer of opengm (include/opengm/learning/bundle-optimizer.hxx)\<close>

text \<open>
  The class template \<open>BundleOptimizer<ValueType>\<close> is embedded with \<open>ValueType\<close> read as
  the real numbers: \<open>+\<close>, \<open>-\<close>, \<open>*\<close> and \<open>\<le>\<close> are the exact ones, there is no rounding and
  no NaN. The one non-real value the source uses, \<open>std::numeric_limits<T>::infinity()\<close>, is
  a constructor of its own.

  A failure of the program is a value: the result of every operation that can fail is a sum
  whose left injection carries the failure. A run of \<open>optimize\<close> that never leaves its
  \<open>while (true)\<close> loop has the value \<open>None\<close>.
\<close>

subsection \<open>Data\<close>

datatype OptimizerResult = ReachedMinGap | ReachedSteps | Error

text \<open>
  \<open>struct Parameter\<close>: \<open>double lambda\<close>, \<open>ValueType min_gap\<close>, \<open>unsigned int steps\<close>.
\<close>

record Parameter =
  lambda :: real
  min_gap :: real
  steps :: "32 word"

definition Parameter_default :: Parameter where
  "Parameter_default = \<lparr> lambda = 1.0, min_gap = 1 / 100000, steps = 0 \<rparr>"

text \<open>
  Modelled from the spec: the weight vector type \<open>Weights\<close> is a template argument whose
  class is not part of the file. It is "an ordered, fixed-length, indexable sequence of real
  numbers", of "length = \<open>numberOfParameters()\<close>", "constructible with a given length
  (zero-initialized)". The source calls the length both \<open>numberOfParameters()\<close> and
  \<open>numberOfWeights()\<close>.
\<close>

type_synonym weights = "real list"

definition numberOfParameters :: "weights \<Rightarrow> nat" where
  "numberOfParameters w = length w"

definition numberOfWeights :: "weights \<Rightarrow> nat" where
  "numberOfWeights w = length w"

definition Weights :: "nat \<Rightarrow> weights" where
  "Weights n = replicate n 0"

datatype failure =
    DimensionMismatch   \<comment> \<open>\<open>OPENGM_ASSERT\<close> in \<open>dot\<close> does not hold\<close>
  | NoSolver            \<comment> \<open>\<open>_solver\<close> is used while it is the null pointer\<close>
  | SolutionTooShort    \<comment> \<open>\<open>x[i]\<close> is read beyond the end of the solution\<close>

text \<open>
  Modelled from the spec: \<open>solver::BundleCollector\<close> (solver/BundleCollector.h) is not part
  of the file. The hyperplane store "owns an append-only ordered sequence" of hyperplanes
  (slope vector, intercept), and "for every stored hyperplane \<open>(a_i, b_i)\<close> emits the
  inequality \<open>\<langle>w,a_i\<rangle> + b_i \<le> \<xi>\<close>", "rebuilt from the full hyperplane history".
\<close>

type_synonym hyperplane = "weights \<times> real"

type_synonym BundleCollector = "hyperplane list"

datatype LinearConstraint = Below_xi weights real

definition addHyperplane :: "weights \<Rightarrow> real \<Rightarrow> BundleCollector \<Rightarrow> BundleCollector" where
  "addHyperplane a b bc = bc @ [(a, b)]"

definition getConstraints :: "BundleCollector \<Rightarrow> LinearConstraint list" where
  "getConstraints bc = map (\<lambda>(a, b). Below_xi a b) bc"

text \<open>
  Modelled from the spec: \<open>solver::QuadraticObjective\<close> is not part of the file. An
  objective over a number of variables holds the coefficients and the sense that have been
  set on it; a fresh one holds none.
\<close>

datatype Sense = Minimize

datatype VariableType = Continuous

record QuadraticObjective =
  numVariables :: nat
  quadraticCoefficients :: "nat \<times> nat \<rightharpoonup> real"
  coefficients :: "nat \<rightharpoonup> real"
  sense :: "Sense option"

definition QuadraticObjective_new :: "nat \<Rightarrow> QuadraticObjective" where
  "QuadraticObjective_new n =
     \<lparr> numVariables = n, quadraticCoefficients = Map.empty, coefficients = Map.empty,
       sense = None \<rparr>"

definition setQuadraticCoefficient ::
  "nat \<Rightarrow> nat \<Rightarrow> real \<Rightarrow> QuadraticObjective \<Rightarrow> QuadraticObjective" where
  "setQuadraticCoefficient i j v obj =
     obj \<lparr> quadraticCoefficients := (quadraticCoefficients obj)((i, j) \<mapsto> v) \<rparr>"

definition setCoefficient :: "nat \<Rightarrow> real \<Rightarrow> QuadraticObjective \<Rightarrow> QuadraticObjective" where
  "setCoefficient i v obj = obj \<lparr> coefficients := (coefficients obj)(i \<mapsto> v) \<rparr>"

definition setSense :: "Sense \<Rightarrow> QuadraticObjective \<Rightarrow> QuadraticObjective" where
  "setSense s obj = obj \<lparr> sense := Some s \<rparr>"

text \<open>
  \<open>solver::QuadraticSolverBackend\<close> is the external QP solver. The optimizer only calls
  \<open>initialize\<close>, \<open>setObjective\<close>, \<open>setConstraints\<close> and \<open>solve\<close> on it, so a solver
  instance is the sequence of the calls it has received, oldest first. What \<open>solve\<close>
  answers is a parameter \<open>backend\<close> of the model: a function of the calls the instance has
  received before. \<open>solve(x, value, msg)\<close> returns the flag and writes the other three.
\<close>

datatype solver_call =
    Initialize nat VariableType
  | SetObjective QuadraticObjective
  | SetConstraints "LinearConstraint list"
  | Solve

type_synonym QuadraticSolverBackend = "solver_call list"

record solve_result =
  solution :: "real list"
  solved_value :: real
  optimal :: bool
  msg :: string

type_synonym backend = "solver_call list \<Rightarrow> solve_result"

text \<open>
  Modelled from the spec: \<open>QuadraticSolverFactory::Create()\<close> is not part of the file; the
  solver instance "is created lazily on first use". A new instance has received no call.
\<close>

definition Create :: QuadraticSolverBackend where
  "Create = []"

text \<open>The members \<open>_parameter\<close>, \<open>_bundleCollector\<close> and \<open>_solver\<close> (a pointer, null or not).\<close>

record BundleOptimizer =
  parameter :: Parameter
  bundleCollector :: BundleCollector
  solver :: "QuadraticSolverBackend option"

definition BundleOptimizer_new :: "Parameter \<Rightarrow> BundleOptimizer" where
  "BundleOptimizer_new p = \<lparr> parameter = p, bundleCollector = [], solver = None \<rparr>"

text \<open>
  The oracle is a parameter of the model. The source calls \<open>oracle(w_tm1, L_w_tm1, a_t)\<close>
  with the last two passed by reference, holding \<open>0.0\<close> and a zero vector; the model's
  oracle takes the three and returns the value and the gradient it leaves there. An oracle
  may keep state between calls: it is also given the points of all earlier calls.
\<close>

type_synonym Oracle = "weights list \<Rightarrow> weights \<Rightarrow> real \<Rightarrow> weights \<Rightarrow> real \<times> weights"

datatype value_type = Infinity | Finite real

text \<open>
  The state of one call of \<open>optimize\<close>: the object, the argument \<open>w\<close> (in and out), the
  locals \<open>minValue\<close> and \<open>t\<close> that live across iterations, and what the call has done to the
  outside: the iteration numbers written to \<open>std::cout\<close>, the lines written to
  \<open>std::cerr\<close>, and the points the oracle has been called at.
\<close>

record frame =
  this :: BundleOptimizer
  w_var :: weights
  minValue :: value_type
  t_var :: "32 word"
  cout :: "32 word list"
  cerr :: "string list"
  oracle_calls :: "weights list"

subsection \<open>dot\<close>

function dot_loop :: "nat \<Rightarrow> weights \<Rightarrow> weights \<Rightarrow> real \<Rightarrow> real" where
  "dot_loop i a b d =
     (if i < numberOfParameters a then dot_loop (i + 1) a b (d + (a ! i + b ! i)) else d)"
  by pat_completeness auto
termination
  by (relation "measure (\<lambda>(i, a, b, d). numberOfParameters a - i)") auto

text \<open>
  Modelled from the spec: the macro \<open>OPENGM_ASSERT\<close> is not part of the file. The inner
  product "invoked on vectors of length 3 and 4 must fail with \<open>DimensionMismatch\<close>".
\<close>

definition dot :: "weights \<Rightarrow> weights \<Rightarrow> failure + real" where
  "dot a b =
     (if numberOfParameters a = numberOfParameters b then Inr (dot_loop 0 a b 0)
      else Inl DimensionMismatch)"

subsection \<open>setupQp\<close>

function setupQp_loop :: "nat \<Rightarrow> Parameter \<Rightarrow> weights \<Rightarrow> QuadraticObjective \<Rightarrow> QuadraticObjective" where
  "setupQp_loop i p w obj =
     (if i < numberOfWeights w
      then setupQp_loop (i + 1) p w (setQuadraticCoefficient i i (0.5 * lambda p) obj)
      else obj)"
  by pat_completeness auto
termination
  by (relation "measure (\<lambda>(i, p, w, obj). numberOfWeights w - i)") auto

definition setupQp :: "weights \<Rightarrow> BundleOptimizer \<Rightarrow> BundleOptimizer" where
  "setupQp w self =
     (let s0 = (case solver self of None \<Rightarrow> Create | Some s \<Rightarrow> s);
          s1 = s0 @ [Initialize (numberOfParameters w + 1) Continuous];
          obj0 = QuadraticObjective_new (numberOfWeights w + 1);
          obj1 = setupQp_loop 0 (parameter self) w obj0;
          obj2 = setCoefficient (numberOfWeights w) 1.0 obj1;
          obj3 = setSense Minimize obj2
      in self \<lparr> solver := Some (s1 @ [SetObjective obj3]) \<rparr>)"

subsection \<open>findMinLowerBound\<close>

function copy_loop :: "nat \<Rightarrow> weights \<Rightarrow> real list \<Rightarrow> failure + weights" where
  "copy_loop i w x =
     (if i < numberOfParameters w
      then (if i < length x then copy_loop (i + 1) (w[i := x ! i]) x else Inl SolutionTooShort)
      else Inr w)"
  by pat_completeness auto
termination
  by (relation "measure (\<lambda>(i, w, x). numberOfParameters w - i)")
     (auto simp: numberOfParameters_def)

text \<open>
  \<open>findMinLowerBound(w, value)\<close> changes the solver, \<open>std::cerr\<close>, \<open>w\<close> and \<open>value\<close>; the
  model returns the new frame and \<open>value\<close>.
\<close>

definition findMinLowerBound :: "backend \<Rightarrow> frame \<Rightarrow> failure + (frame \<times> real)" where
  "findMinLowerBound qp fr =
     (case solver (this fr) of
        None \<Rightarrow> Inl NoSolver
      | Some s0 \<Rightarrow>
          (let s1 = s0 @ [SetConstraints (getConstraints (bundleCollector (this fr)))];
               r = qp s1;
               s2 = s1 @ [Solve];
               x = solution r;
               val = solved_value r;
               err = (if \<not> optimal r
                      then cerr fr @ [''[BundleOptimizer] QP could not be solved to optimality: '' @ msg r]
                      else cerr fr)
           in (case copy_loop 0 (w_var fr) x of
                 Inl e \<Rightarrow> Inl e
               | Inr w' \<Rightarrow>
                   Inr (fr \<lparr> this := (this fr) \<lparr> solver := Some s2 \<rparr>, w_var := w', cerr := err \<rparr>,
                        val))))"

subsection \<open>optimize\<close>

text \<open>
  One pass through the body of the \<open>while (true)\<close> loop, up to and without the test
  \<open>eps_t <= _parameter.min_gap\<close>: the new frame and \<open>eps_t\<close>.
\<close>

definition iteration :: "Oracle \<Rightarrow> backend \<Rightarrow> frame \<Rightarrow> failure + (frame \<times> real)" where
  "iteration orc qp fr =
     (let t' = t_var fr + 1;
          out = cout fr @ [t'];
          w_tm1 = w_var fr;
          (L_w_tm1, a_t) = orc (oracle_calls fr) w_tm1 0.0 (Weights (numberOfWeights (w_var fr)));
          calls = oracle_calls fr @ [w_tm1]
      in (case dot w_tm1 w_tm1 of
            Inl e \<Rightarrow> Inl e
          | Inr ww \<Rightarrow>
              (let mv = (case minValue fr of
                           Infinity \<Rightarrow> L_w_tm1 + lambda (parameter (this fr)) * 0.5 * ww
                         | Finite m \<Rightarrow> min m (L_w_tm1 + lambda (parameter (this fr)) * 0.5 * ww))
               in (case dot w_tm1 a_t of
                     Inl e \<Rightarrow> Inl e
                   | Inr wa \<Rightarrow>
                       (let b_t = L_w_tm1 - wa;
                            fr1 = fr \<lparr> this := (this fr) \<lparr> bundleCollector :=
                                          addHyperplane a_t b_t (bundleCollector (this fr)) \<rparr>,
                                      minValue := Finite mv, t_var := t', cout := out,
                                      oracle_calls := calls \<rparr>
                        in (case findMinLowerBound qp fr1 of
                              Inl e \<Rightarrow> Inl e
                            | Inr (fr2, minLower) \<Rightarrow> Inr (fr2, mv - minLower)))))))"

partial_function (option) optimize_loop ::
  "Oracle \<Rightarrow> backend \<Rightarrow> frame \<Rightarrow> (failure + frame) option" where
  "optimize_loop orc qp fr =
     (case iteration orc qp fr of
        Inl e \<Rightarrow> Some (Inl e)
      | Inr (fr', eps_t) \<Rightarrow>
          if eps_t \<le> min_gap (parameter (this fr')) then Some (Inr fr')
          else optimize_loop orc qp fr')"

text \<open>
  \<open>optimize(oracle, w)\<close> on the object \<open>self\<close>: \<open>None\<close> when the loop never ends, a
  failure when one is raised, and otherwise the returned result with the final frame, which
  holds the object and \<open>w\<close> as the call leaves them.
\<close>

definition enter :: "BundleOptimizer \<Rightarrow> weights \<Rightarrow> frame" where
  "enter self w =
     \<lparr> this = setupQp w self, w_var = w, minValue = Infinity, t_var = 0,
       cout = [], cerr = [], oracle_calls = [] \<rparr>"

definition optimize ::
  "Oracle \<Rightarrow> backend \<Rightarrow> BundleOptimizer \<Rightarrow> weights \<Rightarrow> (failure + OptimizerResult \<times> frame) option" where
  "optimize orc qp self w =
     (case optimize_loop orc qp (enter self w) of
        None \<Rightarrow> None
      | Some (Inl e) \<Rightarrow> Some (Inl e)
      | Some (Inr fr) \<Rightarrow> Some (Inr (ReachedMinGap, fr)))"

subsection \<open>Notions the properties are stated with\<close>

text \<open>The standard inner product \<open>\<Sum>\<^sub>i a\<^sub>i \<cdot> b\<^sub>i\<close>, as the specification writes it.\<close>

definition inner_product :: "weights \<Rightarrow> weights \<Rightarrow> real" where
  "inner_product a b = (\<Sum>i < length a. a ! i * b ! i)"

text \<open>
  \<open>nth_pass n\<close> is what pass number \<open>n\<close> (counted from 0) through the loop body yields when
  the loop is started in a frame: \<open>None\<close> when the loop has ended before, by a failure or by
  \<open>break\<close>; otherwise the outcome of \<open>iteration\<close> on the frame the passes before have left.
\<close>

fun nth_pass :: "nat \<Rightarrow> Oracle \<Rightarrow> backend \<Rightarrow> frame \<Rightarrow> (failure + frame \<times> real) option" where
  "nth_pass 0 orc qp fr = Some (iteration orc qp fr)"
| "nth_pass (Suc n) orc qp fr =
     (case iteration orc qp fr of
        Inl e \<Rightarrow> None
      | Inr (fr', eps_t) \<Rightarrow>
          if eps_t \<le> min_gap (parameter (this fr')) then None else nth_pass n orc qp fr')"

text \<open>The order on values with \<open>Infinity\<close> on top.\<close>

fun value_le :: "value_type \<Rightarrow> value_type \<Rightarrow> bool" where
  "value_le _ Infinity = True"
| "value_le Infinity (Finite _) = False"
| "value_le (Finite x) (Finite y) = (x \<le> y)"

text \<open>
  What the oracle answers in the pass that starts in a frame, the value
  \<open>L_w_tm1 + _parameter.lambda*0.5*dot(w_tm1, w_tm1)\<close> with the sum that \<open>dot\<close> computes,
  and \<open>std::min\<close> of \<open>minValue\<close> and a value.
\<close>

definition oracle_answer :: "Oracle \<Rightarrow> frame \<Rightarrow> real \<times> weights" where
  "oracle_answer orc fr =
     orc (oracle_calls fr) (w_var fr) 0.0 (Weights (numberOfWeights (w_var fr)))"

definition regularized :: "Parameter \<Rightarrow> real \<Rightarrow> weights \<Rightarrow> real" where
  "regularized p L w = L + lambda p * 0.5 * (\<Sum>k < length w. w ! k + w ! k)"

definition new_minValue :: "value_type \<Rightarrow> real \<Rightarrow> real" where
  "new_minValue mv v = (case mv of Infinity \<Rightarrow> v | Finite m \<Rightarrow> min m v)"

text \<open>
  The calls that give a solver a problem of its own (\<open>initialize\<close>, \<open>setObjective\<close>), and
  the objective and constraints a solver holds after a sequence of calls: those of the last
  \<open>setObjective\<close> and the last \<open>setConstraints\<close> ("replace the active linear-constraint
  set wholesale each call").
\<close>

fun changes_objective :: "solver_call \<Rightarrow> bool" where
  "changes_objective (Initialize _ _) = True"
| "changes_objective (SetObjective _) = True"
| "changes_objective (SetConstraints _) = False"
| "changes_objective Solve = False"

fun is_Solve :: "solver_call \<Rightarrow> bool" where
  "is_Solve Solve = True"
| "is_Solve _ = False"

fun installed_objective :: "solver_call list \<Rightarrow> QuadraticObjective option" where
  "installed_objective [] = None"
| "installed_objective (c # cs) =
     (case installed_objective cs of
        Some obj \<Rightarrow> Some obj
      | None \<Rightarrow> (case c of SetObjective obj \<Rightarrow> Some obj | _ \<Rightarrow> None))"

fun installed_constraints :: "solver_call list \<Rightarrow> LinearConstraint list option" where
  "installed_constraints [] = None"
| "installed_constraints (c # cs) =
     (case installed_constraints cs of
        Some k \<Rightarrow> Some k
      | None \<Rightarrow> (case c of SetConstraints k \<Rightarrow> Some k | _ \<Rightarrow> None))"

text \<open>
  Modelled from the spec: what the solver is to solve is not part of the file. The
  subproblem is "\<open>min\<^sub>w 0.5\<cdot>\<lambda>\<cdot>|w|\<^sup>2 + max\<^sub>i(\<langle>w,a\<^sub>i\<rangle> + b\<^sub>i)\<close>", with one inequality
  \<open>\<langle>w,a\<^sub>i\<rangle> + b\<^sub>i \<le> \<xi>\<close> for every stored hyperplane. So: the value of an objective at a
  point \<open>x\<close> (the weights, then \<open>\<xi>\<close>), a point satisfying the inequality of a hyperplane, and
  a point with its value being an optimum of an objective under constraints. An exact
  solver answers with an optimum of the objective and the constraints it holds.
\<close>

definition objective_value :: "QuadraticObjective \<Rightarrow> real list \<Rightarrow> real" where
  "objective_value obj x =
     (\<Sum>i < numVariables obj. \<Sum>j < numVariables obj.
         (case quadraticCoefficients obj (i, j) of None \<Rightarrow> 0 | Some c \<Rightarrow> c * x ! i * x ! j)) +
     (\<Sum>i < numVariables obj.
         (case coefficients obj i of None \<Rightarrow> 0 | Some c \<Rightarrow> c * x ! i))"

fun satisfies :: "real list \<Rightarrow> LinearConstraint \<Rightarrow> bool" where
  "satisfies x (Below_xi a b) = (inner_product a (take (length a) x) + b \<le> x ! length a)"

definition qp_optimum ::
  "QuadraticObjective \<Rightarrow> LinearConstraint list \<Rightarrow> real list \<Rightarrow> real \<Rightarrow> bool" where
  "qp_optimum obj cs x v \<longleftrightarrow>
     length x = numVariables obj \<and> list_all (satisfies x) cs \<and> v = objective_value obj x \<and>
     (\<forall>y. length y = numVariables obj \<and> list_all (satisfies y) cs
          \<longrightarrow> objective_value obj x \<le> objective_value obj y)"

definition solves_exactly :: "backend \<Rightarrow> solver_call list \<Rightarrow> bool" where
  "solves_exactly qp h =
     (case (installed_objective h, installed_constraints h) of
        (Some obj, Some cs) \<Rightarrow> qp_optimum obj cs (solution (qp h)) (solved_value (qp h))
      | _ \<Rightarrow> False)"

text \<open>
  \<open>advanced k fr fr'\<close>: the frame \<open>fr'\<close> is \<open>fr\<close> after \<open>k\<close> passes, in all that the passes
  keep and add.
\<close>

definition advanced :: "nat \<Rightarrow> frame \<Rightarrow> frame \<Rightarrow> bool" where
  "advanced k fr fr' \<longleftrightarrow>
     parameter (this fr') = parameter (this fr) \<and>
     length (w_var fr') = length (w_var fr) \<and>
     value_le (minValue fr') (minValue fr) \<and>
     (\<exists>hs. bundleCollector (this fr') = bundleCollector (this fr) @ hs \<and> length hs = k) \<and>
     (\<exists>ps. oracle_calls fr' = oracle_calls fr @ w_var fr # ps \<and> Suc (length ps) = k) \<and>
     (\<exists>s rest. solver (this fr) = Some s \<and> solver (this fr') = Some (s @ rest) \<and>
          list_all (\<lambda>c. \<not> changes_objective c) rest \<and> length (filter is_Solve rest) = k) \<and>
     t_var fr' = t_var fr + of_nat k \<and>
     (\<exists>ts. cout fr' = cout fr @ ts \<and> length ts = k)"

text \<open>
  \<open>ends_with orc qp fr r n\<close>: the loop started in \<open>fr\<close> ends in pass \<open>n\<close> with \<open>r\<close>, a
  failure raised in that pass or the frame in which the pass reaches \<open>break\<close>.
\<close>

definition ends_with :: "Oracle \<Rightarrow> backend \<Rightarrow> frame \<Rightarrow> failure + frame \<Rightarrow> nat \<Rightarrow> bool" where
  "ends_with orc qp fr r n =
     (case r of
        Inl e \<Rightarrow> nth_pass n orc qp fr = Some (Inl e)
      | Inr fr' \<Rightarrow> (\<exists>eps. nth_pass n orc qp fr = Some (Inr (fr', eps)) \<and>
                         eps \<le> min_gap (parameter (this fr'))))"

text \<open>A frame with another value of the member \<open>_parameter.steps\<close>.\<close>

definition with_steps :: "32 word \<Rightarrow> frame \<Rightarrow> frame" where
  "with_steps k fr = fr \<lparr> this := (this fr) \<lparr> parameter := (parameter (this fr)) \<lparr> steps := k \<rparr> \<rparr> \<rparr>"

text \<open>
  The objective \<open>\<lambda>\<onehalf>|w|\<^sup>2 + \<xi>\<close> over \<open>n\<close> weights and \<open>\<xi>\<close>, as the specification describes it:
  the coefficient \<open>0.5 \<cdot> lambda\<close> on each squared weight, the coefficient \<open>1\<close> on \<open>\<xi>\<close>, to be
  minimized.
\<close>

definition the_objective :: "Parameter \<Rightarrow> nat \<Rightarrow> QuadraticObjective" where
  "the_objective p n =
     \<lparr> numVariables = n + 1,
       quadraticCoefficients = (\<lambda>(i, j). if i = j \<and> i < n then Some (0.5 * lambda p) else None),
       coefficients = (\<lambda>i. if i = n then Some 1.0 else None),
       sense = Some Minimize \<rparr>"

text \<open>
  A scenario: the oracle that is constantly \<open>5\<close> with gradient zero, and a solver whose
  answer is always the point \<open>w = 0\<close>, \<open>\<xi> = 5\<close> with value \<open>5\<close>.
\<close>

definition five_oracle :: Oracle where
  "five_oracle h w L a = (5, Weights (numberOfWeights w))"

definition five_backend :: backend where
  "five_backend h = \<lparr> solution = [0, 5], solved_value = 5, optimal = True, msg = [] \<rparr>"

text \<open>
  Another scenario: a solver whose answer is always the point \<open>0\<close> with value \<open>0\<close>, flagged
  as not optimal. With the oracle that is constantly \<open>5\<close> every pass has the gap \<open>5\<close>;
  \<open>stalled\<close> holds of the frames of such a run.
\<close>

definition zero_backend :: backend where
  "zero_backend h = \<lparr> solution = [0, 0], solved_value = 0, optimal = False, msg = ''stalled'' \<rparr>"

definition stalled :: "frame \<Rightarrow> bool" where
  "stalled fr \<longleftrightarrow>
     w_var fr = [0] \<and> solver (this fr) \<noteq> None \<and>
     min_gap (parameter (this fr)) = 1 / 100000 \<and>
     (minValue fr = Infinity \<or> minValue fr = Finite 5)"

text \<open>
  A third oracle: the function \<open>L(w) = \<Sum>\<^sub>i w\<^sub>i + 5\<close> with its gradient, which is \<open>1\<close> in
  every component.
\<close>

definition line_oracle :: Oracle where
  "line_oracle h w L a = (sum_list w + 5, map (\<lambda>_. 1) w)"

section \<open>The operations in closed form\<close>

declare dot_loop.simps [simp del] copy_loop.simps [simp del] setupQp_loop.simps [simp del]

lemma dot_loop_sum:
  "dot_loop i a b d = d + (\<Sum>k = i..<length a. a ! k + b ! k)"
proof (induction i a b d rule: dot_loop.induct)
  case (1 i a b d)
  show ?case
  proof (cases "i < length a")
    case True
    then show ?thesis
      using "1.IH"
      by (subst dot_loop.simps)
         (simp add: numberOfParameters_def sum.atLeast_Suc_lessThan add.assoc)
  next
    case False
    then show ?thesis by (subst dot_loop.simps) (simp add: numberOfParameters_def)
  qed
qed

lemma dot_eq:
  "dot a b =
     (if length a = length b then Inr (\<Sum>k < length a. a ! k + b ! k) else Inl DimensionMismatch)"
  by (simp add: dot_def dot_loop_sum numberOfParameters_def lessThan_atLeast0)

lemma dot_self: "dot a a = Inr (\<Sum>k < length a. a ! k + a ! k)"
  by (simp add: dot_eq)

lemma copy_loop_result:
  "i \<le> length w \<Longrightarrow>
   copy_loop i w x =
     (if length w \<le> length x \<or> i = length w
      then Inr (take i w @ drop i (take (length w) x))
      else Inl SolutionTooShort)"
proof (induction i w x rule: copy_loop.induct)
  case (1 i w x)
  show ?case
  proof (cases "i < length w")
    case True
    note lt = this
    show ?thesis
    proof (cases "i < length x")
      case True
      have "copy_loop i w x = copy_loop (i + 1) (w[i := x ! i]) x"
        using lt True by (subst copy_loop.simps) (simp add: numberOfParameters_def)
      also have "\<dots> = (if length w \<le> length x \<or> i + 1 = length w
          then Inr (take (i + 1) (w[i := x ! i]) @ drop (i + 1) (take (length w) x))
          else Inl SolutionTooShort)"
        using "1.IH" lt True "1.prems" by (simp add: numberOfParameters_def)
      also have "\<dots> = (if length w \<le> length x \<or> i = length w
          then Inr (take i w @ drop i (take (length w) x))
          else Inl SolutionTooShort)"
      proof (cases "length w \<le> length x")
        case le: True
        have a: "take (i + 1) (w[i := x ! i]) = take i w @ [x ! i]"
          using lt by (simp add: take_Suc_conv_app_nth)
        have b: "drop i (take (length w) x) = x ! i # drop (i + 1) (take (length w) x)"
        proof -
          have "i < length (take (length w) x)" using lt le by simp
          from Cons_nth_drop_Suc[OF this] show ?thesis using lt by simp
        qed
        show ?thesis using le a b by simp
      next
        case False
        then show ?thesis using lt True by auto
      qed
      finally show ?thesis .
    next
      case False
      then show ?thesis using lt by (subst copy_loop.simps) (simp add: numberOfParameters_def)
    qed
  next
    case False
    then show ?thesis using "1.prems" by (subst copy_loop.simps) (simp add: numberOfParameters_def)
  qed
qed

lemma copy_loop_0:
  "copy_loop 0 w x =
     (if length w \<le> length x then Inr (take (length w) x) else Inl SolutionTooShort)"
proof (cases "length w \<le> length x")
  case True
  then show ?thesis using copy_loop_result [of 0 w x] by simp
next
  case False
  then have "w \<noteq> []" by auto
  with False show ?thesis using copy_loop_result [of 0 w x] by simp
qed

lemma findMinLowerBound_eq:
  "findMinLowerBound qp fr =
     (case solver (this fr) of
        None \<Rightarrow> Inl NoSolver
      | Some s0 \<Rightarrow>
          (let s1 = s0 @ [SetConstraints (getConstraints (bundleCollector (this fr)))];
               r = qp s1
           in if length (w_var fr) \<le> length (solution r)
              then Inr (fr \<lparr> this := (this fr) \<lparr> solver := Some (s1 @ [Solve]) \<rparr>,
                             w_var := take (length (w_var fr)) (solution r),
                             cerr := (if optimal r then cerr fr
                                      else cerr fr @ [''[BundleOptimizer] QP could not be solved to optimality: '' @ msg r]) \<rparr>,
                        solved_value r)
              else Inl SolutionTooShort))"
  by (simp add: findMinLowerBound_def copy_loop_0 Let_def split: option.splits)

lemma iteration_eq:
  "iteration orc qp fr =
     (let (L, a) = oracle_answer orc fr;
          w = w_var fr;
          mv = new_minValue (minValue fr) (regularized (parameter (this fr)) L w);
          b = L - (\<Sum>k < length w. w ! k + a ! k);
          fr1 = fr \<lparr> this := (this fr) \<lparr> bundleCollector := bundleCollector (this fr) @ [(a, b)] \<rparr>,
                      minValue := Finite mv, t_var := t_var fr + 1, cout := cout fr @ [t_var fr + 1],
                      oracle_calls := oracle_calls fr @ [w] \<rparr>
      in if length w = length a
         then (case findMinLowerBound qp fr1 of
                 Inl e \<Rightarrow> Inl e
               | Inr (fr2, minLower) \<Rightarrow> Inr (fr2, mv - minLower))
         else Inl DimensionMismatch)"
proof -
  obtain L a where oa: "oracle_answer orc fr = (L, a)" by (cases "oracle_answer orc fr")
  then have oa': "orc (oracle_calls fr) (w_var fr) 0.0 (Weights (numberOfWeights (w_var fr))) = (L, a)"
    by (simp only: oracle_answer_def)
  have d1: "dot (w_var fr) (w_var fr) = Inr (\<Sum>k < length (w_var fr). w_var fr ! k + w_var fr ! k)"
    by (rule dot_self)
  show ?thesis
  proof (cases "length (w_var fr) = length a")
    case True
    then have d2: "dot (w_var fr) a = Inr (\<Sum>k < length (w_var fr). w_var fr ! k + a ! k)"
      by (simp add: dot_eq)
    show ?thesis
      by (simp only: iteration_def Let_def oa oa' d1 d2 True if_True sum.case prod.case simp_thms
          regularized_def new_minValue_def addHyperplane_def)
  next
    case False
    then have d2: "dot (w_var fr) a = Inl DimensionMismatch"
      by (simp add: dot_eq)
    show ?thesis
      by (simp only: iteration_def Let_def oa oa' d1 d2 False if_False sum.case prod.case)
  qed
qed

subsection \<open>A pass that succeeds\<close>

lemma iteration_InrE:
  assumes "iteration orc qp fr = Inr (fr', eps)"
  obtains L a s0 r where
    "oracle_answer orc fr = (L, a)"
    "length a = length (w_var fr)"
    "solver (this fr) = Some s0"
    "r = qp (s0 @ [SetConstraints (getConstraints (bundleCollector (this fr) @
               [(a, L - (\<Sum>k < length (w_var fr). w_var fr ! k + a ! k))]))])"
    "length (w_var fr) \<le> length (solution r)"
    "this fr' = (this fr) \<lparr> bundleCollector := bundleCollector (this fr) @
               [(a, L - (\<Sum>k < length (w_var fr). w_var fr ! k + a ! k))],
          solver := Some (s0 @ [SetConstraints (getConstraints (bundleCollector (this fr) @
               [(a, L - (\<Sum>k < length (w_var fr). w_var fr ! k + a ! k))])), Solve]) \<rparr>"
    "w_var fr' = take (length (w_var fr)) (solution r)"
    "minValue fr' = Finite (new_minValue (minValue fr) (regularized (parameter (this fr)) L (w_var fr)))"
    "t_var fr' = t_var fr + 1"
    "cout fr' = cout fr @ [t_var fr + 1]"
    "cerr fr' = (if optimal r then cerr fr
                 else cerr fr @ [''[BundleOptimizer] QP could not be solved to optimality: '' @ msg r])"
    "oracle_calls fr' = oracle_calls fr @ [w_var fr]"
    "eps = new_minValue (minValue fr) (regularized (parameter (this fr)) L (w_var fr)) - solved_value r"
proof -
  obtain L a where oa: "oracle_answer orc fr = (L, a)" by (cases "oracle_answer orc fr")
  from assms oa have len: "length (w_var fr) = length a"
    by (simp add: iteration_eq Let_def split: if_splits)
  from assms oa len obtain s0 where s0: "solver (this fr) = Some s0"
    by (auto simp add: iteration_eq findMinLowerBound_eq Let_def split: if_splits option.splits)
  define r where "r = qp (s0 @ [SetConstraints (getConstraints (bundleCollector (this fr) @
               [(a, L - (\<Sum>k < length (w_var fr). w_var fr ! k + a ! k))]))])"
  from assms oa len s0 have le: "length (w_var fr) \<le> length (solution r)"
    by (auto simp add: iteration_eq findMinLowerBound_eq Let_def r_def split: if_splits)
  from assms oa len s0 le have
    fr': "fr' = fr \<lparr> this := (this fr) \<lparr> bundleCollector := bundleCollector (this fr) @
               [(a, L - (\<Sum>k < length (w_var fr). w_var fr ! k + a ! k))],
          solver := Some (s0 @ [SetConstraints (getConstraints (bundleCollector (this fr) @
               [(a, L - (\<Sum>k < length (w_var fr). w_var fr ! k + a ! k))])), Solve]) \<rparr>,
        w_var := take (length (w_var fr)) (solution r),
        minValue := Finite (new_minValue (minValue fr) (regularized (parameter (this fr)) L (w_var fr))),
        t_var := t_var fr + 1, cout := cout fr @ [t_var fr + 1],
        cerr := (if optimal r then cerr fr
                 else cerr fr @ [''[BundleOptimizer] QP could not be solved to optimality: '' @ msg r]),
        oracle_calls := oracle_calls fr @ [w_var fr] \<rparr>"
    and eps: "eps = new_minValue (minValue fr) (regularized (parameter (this fr)) L (w_var fr)) - solved_value r"
    by (auto simp add: iteration_eq findMinLowerBound_eq Let_def r_def split: if_splits)
  show thesis
    by (rule that[OF oa len[symmetric] s0 r_def le _ _ _ _ _ _ _ eps]) (simp_all add: fr')
qed

subsection \<open>The loop and its passes\<close>

lemma loop_sound:
  assumes "optimize_loop orc qp fr = Some r"
  shows "\<exists>n. ends_with orc qp fr r n"
proof (rule optimize_loop.raw_induct[where P = "\<lambda>orc qp fr r. \<exists>n. ends_with orc qp fr r n", OF _ assms])
  fix loop :: "Oracle \<Rightarrow> backend \<Rightarrow> frame \<Rightarrow> (failure + frame) option"
  fix orc qp fr r
  assume IH: "\<And>orc qp fr r. loop orc qp fr = Some r \<Longrightarrow> \<exists>n. ends_with orc qp fr r n"
  assume step: "(case iteration orc qp fr of Inl e \<Rightarrow> Some (Inl e)
      | Inr (fr', eps_t) \<Rightarrow>
          if eps_t \<le> min_gap (parameter (this fr')) then Some (Inr fr')
          else loop orc qp fr') = Some r"
  show "\<exists>n. ends_with orc qp fr r n"
  proof (cases "iteration orc qp fr")
    case (Inl e)
    with step have "r = Inl e" by simp
    with Inl have "ends_with orc qp fr r 0" by (simp add: ends_with_def)
    then show ?thesis ..
  next
    case (Inr p)
    obtain fr1 eps where p: "p = (fr1, eps)" by (cases p)
    show ?thesis
    proof (cases "eps \<le> min_gap (parameter (this fr1))")
      case True
      with step Inr p have "r = Inr fr1" by simp
      with Inr p True have "ends_with orc qp fr r 0" by (simp add: ends_with_def)
      then show ?thesis ..
    next
      case False
      with step Inr p have "loop orc qp fr1 = Some r" by simp
      from IH[OF this] obtain n where n: "ends_with orc qp fr1 r n" by blast
      have "nth_pass (Suc n) orc qp fr = nth_pass n orc qp fr1"
        using Inr p False by simp
      with n have "ends_with orc qp fr r (Suc n)"
        by (cases r) (simp_all add: ends_with_def del: nth_pass.simps)
      then show ?thesis ..
    qed
  qed
qed

lemma loop_complete_Inl:
  "nth_pass n orc qp fr = Some (Inl e) \<Longrightarrow> optimize_loop orc qp fr = Some (Inl e)"
proof (induction n arbitrary: fr)
  case 0
  then show ?case by (subst optimize_loop.simps) simp
next
  case (Suc n)
  then show ?case
    by (subst optimize_loop.simps) (auto split: sum.splits if_splits)
qed

lemma loop_complete_Inr:
  "nth_pass n orc qp fr = Some (Inr (fr', eps)) \<Longrightarrow> eps \<le> min_gap (parameter (this fr')) \<Longrightarrow>
   optimize_loop orc qp fr = Some (Inr fr')"
proof (induction n arbitrary: fr)
  case 0
  then show ?case by (subst optimize_loop.simps) simp
next
  case (Suc n)
  then show ?case
    by (subst optimize_loop.simps) (auto split: sum.splits if_splits)
qed

subsection \<open>What passes keep and add\<close>

lemma value_le_refl: "value_le v v"
  by (cases v) simp_all

lemma value_le_trans: "value_le a b \<Longrightarrow> value_le b c \<Longrightarrow> value_le a c"
  by (cases a; cases b; cases c) simp_all

lemma value_le_new_minValue: "value_le (Finite (new_minValue mv v)) mv"
  by (cases mv) (simp_all add: new_minValue_def)

lemma iteration_advanced:
  assumes "iteration orc qp fr = Inr (fr', eps)"
  shows "advanced 1 fr fr'"
  using assms
proof (rule iteration_InrE)
  fix L a s0 r
  assume this': "this fr' = (this fr) \<lparr> bundleCollector := bundleCollector (this fr) @
               [(a, L - (\<Sum>k < length (w_var fr). w_var fr ! k + a ! k))],
          solver := Some (s0 @ [SetConstraints (getConstraints (bundleCollector (this fr) @
               [(a, L - (\<Sum>k < length (w_var fr). w_var fr ! k + a ! k))])), Solve]) \<rparr>"
    and s0: "solver (this fr) = Some s0"
    and le: "length (w_var fr) \<le> length (solution r)"
    and w: "w_var fr' = take (length (w_var fr)) (solution r)"
    and mv: "minValue fr' = Finite (new_minValue (minValue fr) (regularized (parameter (this fr)) L (w_var fr)))"
    and t: "t_var fr' = t_var fr + 1"
    and out: "cout fr' = cout fr @ [t_var fr + 1]"
    and calls: "oracle_calls fr' = oracle_calls fr @ [w_var fr]"
  have "solver (this fr') = Some (s0 @ [SetConstraints (getConstraints (bundleCollector (this fr) @
               [(a, L - (\<Sum>k < length (w_var fr). w_var fr ! k + a ! k))])), Solve])"
    by (simp add: this')
  then have sol: "\<exists>s rest. solver (this fr) = Some s \<and> solver (this fr') = Some (s @ rest) \<and>
          list_all (\<lambda>c. \<not> changes_objective c) rest \<and> length (filter is_Solve rest) = 1"
    using s0 by simp
  show ?thesis
    unfolding advanced_def
    using sol by (simp add: this' w le mv t out calls value_le_new_minValue)
qed

lemma advanced_trans:
  assumes "advanced j f g" and "advanced k g h"
  shows "advanced (j + k) f h"
proof -
  from assms obtain hs1 hs2 where hs:
    "bundleCollector (this g) = bundleCollector (this f) @ hs1" "length hs1 = j"
    "bundleCollector (this h) = bundleCollector (this g) @ hs2" "length hs2 = k"
    unfolding advanced_def by blast
  from assms obtain ps1 ps2 where ps:
    "oracle_calls g = oracle_calls f @ w_var f # ps1" "Suc (length ps1) = j"
    "oracle_calls h = oracle_calls g @ w_var g # ps2" "Suc (length ps2) = k"
    unfolding advanced_def by blast
  from assms obtain s1 r1 s2 r2 where ss:
    "solver (this f) = Some s1" "solver (this g) = Some (s1 @ r1)"
    "list_all (\<lambda>c. \<not> changes_objective c) r1" "length (filter is_Solve r1) = j"
    "solver (this g) = Some s2" "solver (this h) = Some (s2 @ r2)"
    "list_all (\<lambda>c. \<not> changes_objective c) r2" "length (filter is_Solve r2) = k"
    unfolding advanced_def by blast
  from assms obtain ts1 ts2 where ts:
    "cout g = cout f @ ts1" "length ts1 = j" "cout h = cout g @ ts2" "length ts2 = k"
    unfolding advanced_def by blast
  have 1: "\<exists>hs. bundleCollector (this h) = bundleCollector (this f) @ hs \<and> length hs = j + k"
    using hs by simp
  have 2: "\<exists>ps. oracle_calls h = oracle_calls f @ w_var f # ps \<and> Suc (length ps) = j + k"
    using ps by auto
  have 3: "\<exists>s rest. solver (this f) = Some s \<and> solver (this h) = Some (s @ rest) \<and>
          list_all (\<lambda>c. \<not> changes_objective c) rest \<and> length (filter is_Solve rest) = j + k"
    using ss by auto
  have 4: "\<exists>ts. cout h = cout f @ ts \<and> length ts = j + k"
    using ts by simp
  have 5: "parameter (this h) = parameter (this f)" "length (w_var h) = length (w_var f)"
    "t_var h = t_var f + of_nat (j + k)"
    using assms unfolding advanced_def by simp_all
  have 6: "value_le (minValue h) (minValue f)"
    using assms value_le_trans unfolding advanced_def by blast
  show ?thesis
    unfolding advanced_def using 1 2 3 4 5 6 by blast
qed

lemma nth_pass_Suc:
  assumes "nth_pass (Suc n) orc qp fr = Some r"
  obtains fr1 eps1 where "iteration orc qp fr = Inr (fr1, eps1)"
    "\<not> eps1 \<le> min_gap (parameter (this fr1))" "nth_pass n orc qp fr1 = Some r"
  using assms by (auto split: sum.splits if_splits)

lemma nth_pass_advanced:
  "nth_pass n orc qp fr = Some (Inr (fr', eps)) \<Longrightarrow> advanced (Suc n) fr fr'"
proof (induction n arbitrary: fr)
  case 0
  then show ?case using iteration_advanced by simp
next
  case (Suc n)
  from Suc.prems obtain fr1 eps1 where 1: "iteration orc qp fr = Inr (fr1, eps1)"
    and 2: "nth_pass n orc qp fr1 = Some (Inr (fr', eps))"
    by (rule nth_pass_Suc)
  from advanced_trans[OF iteration_advanced[OF 1] Suc.IH[OF 2]]
  show ?case by simp
qed

lemma nth_pass_last:
  "nth_pass n orc qp fr = Some r \<Longrightarrow>
   \<exists>f. iteration orc qp f = r \<and> (n = 0 \<and> f = fr \<or> 0 < n \<and> advanced n fr f)"
proof (induction n arbitrary: fr)
  case 0
  then show ?case by simp
next
  case (Suc n)
  from Suc.prems obtain fr1 eps1 where 1: "iteration orc qp fr = Inr (fr1, eps1)"
    and 2: "nth_pass n orc qp fr1 = Some r"
    by (rule nth_pass_Suc)
  from Suc.IH[OF 2] obtain f where f: "iteration orc qp f = r"
    "n = 0 \<and> f = fr1 \<or> 0 < n \<and> advanced n fr1 f" by blast
  have "advanced (Suc n) fr f"
  proof (cases "n = 0")
    case True
    with f iteration_advanced[OF 1] show ?thesis by simp
  next
    case False
    with f have "advanced n fr1 f" by simp
    from advanced_trans[OF iteration_advanced[OF 1] this] show ?thesis by simp
  qed
  with f show ?case by blast
qed

subsection \<open>The loop and its passes, continued\<close>

lemma nth_pass_None:
  "nth_pass n orc qp fr = None \<Longrightarrow>
   \<exists>m<n. (\<exists>e. nth_pass m orc qp fr = Some (Inl e)) \<or>
         (\<exists>fr' eps. nth_pass m orc qp fr = Some (Inr (fr', eps)) \<and>
                    eps \<le> min_gap (parameter (this fr')))"
proof (induction n arbitrary: fr)
  case 0
  then show ?case by simp
next
  case (Suc n)
  show ?case
  proof (cases "iteration orc qp fr")
    case (Inl e)
    then have "nth_pass 0 orc qp fr = Some (Inl e)" by simp
    then show ?thesis by blast
  next
    case (Inr p)
    obtain fr1 eps1 where p: "p = (fr1, eps1)" by (cases p)
    show ?thesis
    proof (cases "eps1 \<le> min_gap (parameter (this fr1))")
      case True
      with Inr p have "nth_pass 0 orc qp fr = Some (Inr (fr1, eps1))" by simp
      with True show ?thesis by blast
    next
      case False
      with Inr p have eq: "\<And>k. nth_pass (Suc k) orc qp fr = nth_pass k orc qp fr1" by simp
      with Suc.prems have "nth_pass n orc qp fr1 = None" by simp
      from Suc.IH[OF this] obtain m where m: "m < n"
        "(\<exists>e. nth_pass m orc qp fr1 = Some (Inl e)) \<or>
         (\<exists>fr' eps. nth_pass m orc qp fr1 = Some (Inr (fr', eps)) \<and>
                    eps \<le> min_gap (parameter (this fr')))" by blast
      then have "Suc m < Suc n \<and> ((\<exists>e. nth_pass (Suc m) orc qp fr = Some (Inl e)) \<or>
         (\<exists>fr' eps. nth_pass (Suc m) orc qp fr = Some (Inr (fr', eps)) \<and>
                    eps \<le> min_gap (parameter (this fr'))))"
        by (simp only: eq) simp
      then show ?thesis by blast
    qed
  qed
qed

lemma loop_None_iff:
  "optimize_loop orc qp fr = None \<longleftrightarrow>
   (\<forall>n. \<exists>fr' eps. nth_pass n orc qp fr = Some (Inr (fr', eps)) \<and>
                   min_gap (parameter (this fr')) < eps)"
proof
  assume none: "optimize_loop orc qp fr = None"
  have stop: False
    if "(\<exists>e. nth_pass m orc qp fr = Some (Inl e)) \<or>
         (\<exists>fr' eps. nth_pass m orc qp fr = Some (Inr (fr', eps)) \<and>
                    eps \<le> min_gap (parameter (this fr')))" for m
    using that none loop_complete_Inl loop_complete_Inr by fastforce
  show "\<forall>n. \<exists>fr' eps. nth_pass n orc qp fr = Some (Inr (fr', eps)) \<and>
                   min_gap (parameter (this fr')) < eps"
  proof
    fix n
    show "\<exists>fr' eps. nth_pass n orc qp fr = Some (Inr (fr', eps)) \<and>
                   min_gap (parameter (this fr')) < eps"
    proof (cases "nth_pass n orc qp fr")
      case None
      from nth_pass_None[OF this] stop show ?thesis by blast
    next
      case (Some r)
      show ?thesis
      proof (cases r)
        case (Inl e)
        with Some stop[of n] show ?thesis by blast
      next
        case (Inr p)
        obtain fr' eps where "p = (fr', eps)" by (cases p)
        with Some Inr stop[of n] show ?thesis by force
      qed
    qed
  qed
next
  assume all: "\<forall>n. \<exists>fr' eps. nth_pass n orc qp fr = Some (Inr (fr', eps)) \<and>
                   min_gap (parameter (this fr')) < eps"
  show "optimize_loop orc qp fr = None"
  proof (cases "optimize_loop orc qp fr")
    case None
    then show ?thesis .
  next
    case (Some r)
    from loop_sound[OF this] obtain n where "ends_with orc qp fr r n" ..
    with all[rule_format, of n] show ?thesis
      by (cases r) (auto simp: ends_with_def)
  qed
qed

lemma loop_Inr_iff:
  "optimize_loop orc qp fr = Some (Inr fr') \<longleftrightarrow>
   (\<exists>n eps. nth_pass n orc qp fr = Some (Inr (fr', eps)) \<and> eps \<le> min_gap (parameter (this fr')))"
  using loop_sound[of orc qp fr "Inr fr'"] loop_complete_Inr[of _ orc qp fr fr']
  by (auto simp: ends_with_def)

lemma loop_Inl_iff:
  "optimize_loop orc qp fr = Some (Inl e) \<longleftrightarrow> (\<exists>n. nth_pass n orc qp fr = Some (Inl e))"
  using loop_sound[of orc qp fr "Inl e"] loop_complete_Inl[of _ orc qp fr e]
  by (auto simp: ends_with_def)

lemma parameter_setupQp: "parameter (setupQp w self) = parameter self"
  by (simp add: setupQp_def Let_def)

lemma bundleCollector_setupQp: "bundleCollector (setupQp w self) = bundleCollector self"
  by (simp add: setupQp_def Let_def)

lemma nth_pass_parameter:
  "nth_pass n orc qp (enter self w) = Some (Inr (fr', eps)) \<Longrightarrow>
   parameter (this fr') = parameter self"
  using nth_pass_advanced[of n orc qp "enter self w" fr' eps]
  by (simp add: advanced_def enter_def parameter_setupQp)

subsection \<open>The member steps is not read\<close>

lemma setupQp_loop_steps:
  "setupQp_loop i (p \<lparr> steps := k \<rparr>) w obj = setupQp_loop i p w obj"
proof (induction i p w obj rule: setupQp_loop.induct)
  case (1 i p w obj)
  show ?case
  proof (cases "i < numberOfWeights w")
    case True
    with "1.IH" show ?thesis
      by (subst (1 2) setupQp_loop.simps) simp
  next
    case False
    then show ?thesis by (subst (1 2) setupQp_loop.simps) simp
  qed
qed

lemma enter_with_steps:
  "enter (self \<lparr> parameter := (parameter self) \<lparr> steps := k \<rparr> \<rparr>) w = with_steps k (enter self w)"
  by (simp add: enter_def with_steps_def setupQp_def Let_def setupQp_loop_steps)

lemma findMinLowerBound_with_steps:
  "findMinLowerBound qp (with_steps k fr) =
     map_sum id (\<lambda>(f, v). (with_steps k f, v)) (findMinLowerBound qp fr)"
  by (simp add: findMinLowerBound_eq with_steps_def Let_def split: option.splits)

lemma iteration_with_steps:
  "iteration orc qp (with_steps k fr) =
     map_sum id (\<lambda>(f, e). (with_steps k f, e)) (iteration orc qp fr)"
proof -
  obtain L a where oa: "oracle_answer orc fr = (L, a)" by (cases "oracle_answer orc fr")
  then have oa': "oracle_answer orc (with_steps k fr) = (L, a)"
    by (simp add: oracle_answer_def with_steps_def)
  define mv where "mv = new_minValue (minValue fr) (regularized (parameter (this fr)) L (w_var fr))"
  define fr1 where "fr1 = fr \<lparr> this := (this fr) \<lparr> bundleCollector := bundleCollector (this fr) @
        [(a, L - (\<Sum>k < length (w_var fr). w_var fr ! k + a ! k))] \<rparr>,
      minValue := Finite mv, t_var := t_var fr + 1, cout := cout fr @ [t_var fr + 1],
      oracle_calls := oracle_calls fr @ [w_var fr] \<rparr>"
  have A: "iteration orc qp fr =
      (if length (w_var fr) = length a
       then (case findMinLowerBound qp fr1 of
               Inl e \<Rightarrow> Inl e
             | Inr (fr2, minLower) \<Rightarrow> Inr (fr2, mv - minLower))
       else Inl DimensionMismatch)"
    unfolding fr1_def mv_def by (simp add: iteration_eq oa Let_def)
  have mv': "new_minValue (minValue (with_steps k fr))
        (regularized (parameter (this (with_steps k fr))) L (w_var (with_steps k fr))) = mv"
    by (simp add: mv_def with_steps_def regularized_def)
  have f1: "(with_steps k fr) \<lparr> this := (this (with_steps k fr)) \<lparr> bundleCollector :=
          bundleCollector (this (with_steps k fr)) @
          [(a, L - (\<Sum>j < length (w_var fr). w_var (with_steps k fr) ! j + a ! j))] \<rparr>,
        minValue := Finite mv, t_var := t_var (with_steps k fr) + 1,
        cout := cout (with_steps k fr) @ [t_var (with_steps k fr) + 1],
        oracle_calls := oracle_calls (with_steps k fr) @ [w_var (with_steps k fr)] \<rparr> =
      with_steps k fr1"
    by (simp add: with_steps_def fr1_def)
  have len: "length (w_var (with_steps k fr)) = length (w_var fr)"
    by (simp add: with_steps_def)
  have "iteration orc qp (with_steps k fr) =
      (if length (w_var fr) = length a
       then (case findMinLowerBound qp (with_steps k fr1) of
               Inl e \<Rightarrow> Inl e
             | Inr (fr2, minLower) \<Rightarrow> Inr (fr2, mv - minLower))
       else Inl DimensionMismatch)"
    by (simp only: iteration_eq oa' prod.case Let_def mv' f1 len)
  then show ?thesis
    by (simp add: A findMinLowerBound_with_steps split: sum.splits)
qed

lemma nth_pass_with_steps:
  "nth_pass n orc qp (with_steps k fr) =
     map_option (map_sum id (\<lambda>(f, e). (with_steps k f, e))) (nth_pass n orc qp fr)"
proof (induction n arbitrary: fr)
  case 0
  show ?case by (simp add: iteration_with_steps id_def)
next
  case (Suc n)
  have mg: "min_gap (parameter (this (with_steps k f))) = min_gap (parameter (this f))" for f
    by (simp add: with_steps_def)
  show ?case
  proof (cases "iteration orc qp fr")
    case (Inl e)
    then show ?thesis by (simp add: iteration_with_steps)
  next
    case (Inr p)
    obtain fr1 eps1 where "p = (fr1, eps1)" by (cases p)
    with Inr Suc.IH[of fr1] show ?thesis by (simp add: iteration_with_steps mg)
  qed
qed

lemma loop_with_steps:
  "optimize_loop orc qp (with_steps k fr) =
     map_option (map_sum id (with_steps k)) (optimize_loop orc qp fr)"
proof (cases "optimize_loop orc qp fr")
  case None
  have mg: "min_gap (parameter (this (with_steps k f))) = min_gap (parameter (this f))" for f
    by (simp add: with_steps_def)
  from None have "\<forall>n. \<exists>fr' eps. nth_pass n orc qp fr = Some (Inr (fr', eps)) \<and>
                   min_gap (parameter (this fr')) < eps"
    by (rule iffD1[OF loop_None_iff])
  then have "\<forall>n. \<exists>fr' eps. nth_pass n orc qp (with_steps k fr) = Some (Inr (fr', eps)) \<and>
                   min_gap (parameter (this fr')) < eps"
  proof (intro allI)
    fix n
    assume "\<forall>n. \<exists>fr' eps. nth_pass n orc qp fr = Some (Inr (fr', eps)) \<and>
                   min_gap (parameter (this fr')) < eps"
    then obtain f e where fe: "nth_pass n orc qp fr = Some (Inr (f, e))"
      "min_gap (parameter (this f)) < e" by blast
    then have "nth_pass n orc qp (with_steps k fr) = Some (Inr (with_steps k f, e))"
      by (simp add: nth_pass_with_steps)
    with fe(2) mg[of f]
    show "\<exists>fr' eps. nth_pass n orc qp (with_steps k fr) = Some (Inr (fr', eps)) \<and>
                   min_gap (parameter (this fr')) < eps"
      by (intro exI[of _ "with_steps k f"] exI[of _ e]) simp
  qed
  then have "optimize_loop orc qp (with_steps k fr) = None"
    by (rule iffD2[OF loop_None_iff])
  with None show ?thesis by simp
next
  case (Some r)
  have mg: "min_gap (parameter (this (with_steps k f))) = min_gap (parameter (this f))" for f
    by (simp add: with_steps_def)
  show ?thesis
  proof (cases r)
    case (Inl e)
    with Some obtain n where "nth_pass n orc qp fr = Some (Inl e)"
      by (auto simp: loop_Inl_iff)
    then have "nth_pass n orc qp (with_steps k fr) = Some (Inl e)"
      by (simp add: nth_pass_with_steps)
    then have "optimize_loop orc qp (with_steps k fr) = Some (Inl e)"
      by (rule loop_complete_Inl)
    with Some Inl show ?thesis by simp
  next
    case (Inr fr')
    with Some obtain n eps where n: "nth_pass n orc qp fr = Some (Inr (fr', eps))"
      "eps \<le> min_gap (parameter (this fr'))"
      by (auto simp: loop_Inr_iff)
    then have "nth_pass n orc qp (with_steps k fr) = Some (Inr (with_steps k fr', eps))"
      by (simp add: nth_pass_with_steps)
    then have "optimize_loop orc qp (with_steps k fr) = Some (Inr (with_steps k fr'))"
      using n(2) by (intro loop_complete_Inr) (simp_all add: mg)
    with Some Inr show ?thesis by simp
  qed
qed

subsection \<open>setupQp in closed form\<close>

lemma setupQp_loop_eq:
  "setupQp_loop i p w obj =
     obj \<lparr> quadraticCoefficients :=
       (\<lambda>(j, k). if j = k \<and> i \<le> j \<and> j < length w then Some (0.5 * lambda p)
                 else quadraticCoefficients obj (j, k)) \<rparr>"
proof (induction i p w obj rule: setupQp_loop.induct)
  case (1 i p w obj)
  show ?case
  proof (cases "i < numberOfWeights w")
    case True
    have "setupQp_loop i p w obj =
        setupQp_loop (i + 1) p w (setQuadraticCoefficient i i (0.5 * lambda p) obj)"
      using True by (subst setupQp_loop.simps) simp
    also have "\<dots> = (setQuadraticCoefficient i i (0.5 * lambda p) obj) \<lparr> quadraticCoefficients :=
       (\<lambda>(j, k). if j = k \<and> i + 1 \<le> j \<and> j < length w then Some (0.5 * lambda p)
                 else quadraticCoefficients (setQuadraticCoefficient i i (0.5 * lambda p) obj) (j, k)) \<rparr>"
      using "1.IH"[OF True] .
    also have "\<dots> = obj \<lparr> quadraticCoefficients :=
       (\<lambda>(j, k). if j = k \<and> i \<le> j \<and> j < length w then Some (0.5 * lambda p)
                 else quadraticCoefficients obj (j, k)) \<rparr>"
      using True
      by (auto simp add: setQuadraticCoefficient_def numberOfWeights_def fun_eq_iff)
    finally show ?thesis .
  next
    case False
    then have "setupQp_loop i p w obj = obj" by (subst setupQp_loop.simps) simp
    moreover have "(\<lambda>(j, k). if j = k \<and> i \<le> j \<and> j < length w then Some (0.5 * lambda p)
                 else quadraticCoefficients obj (j, k)) = quadraticCoefficients obj"
      using False by (auto simp: fun_eq_iff numberOfWeights_def)
    ultimately show ?thesis by simp
  qed
qed

lemma setupQp_eq:
  "setupQp w self =
     self \<lparr> solver := Some ((case solver self of None \<Rightarrow> [] | Some s \<Rightarrow> s) @
        [Initialize (length w + 1) Continuous, SetObjective (the_objective (parameter self) (length w))]) \<rparr>"
  by (auto simp add: setupQp_def Let_def setupQp_loop_eq the_objective_def Create_def
      QuadraticObjective_new_def setCoefficient_def setSense_def numberOfWeights_def
      numberOfParameters_def fun_eq_iff split: option.splits)

subsection \<open>The scenarios\<close>

lemma iteration_InrI:
  assumes "oracle_answer orc fr = (L, a)" and "length a = length (w_var fr)"
    and "solver (this fr) = Some s0"
    and "length (w_var fr) \<le> length (solution (qp (s0 @
           [SetConstraints (getConstraints (bundleCollector (this fr) @
             [(a, L - (\<Sum>k < length (w_var fr). w_var fr ! k + a ! k))]))])))"
  shows "\<exists>fr'. iteration orc qp fr =
           Inr (fr', new_minValue (minValue fr) (regularized (parameter (this fr)) L (w_var fr)) -
                     solved_value (qp (s0 @
           [SetConstraints (getConstraints (bundleCollector (this fr) @
             [(a, L - (\<Sum>k < length (w_var fr). w_var fr ! k + a ! k))]))])))"
  using assms by (simp add: iteration_eq findMinLowerBound_eq Let_def)

lemma scenario_enter:
  "enter (BundleOptimizer_new Parameter_default) [0] =
     \<lparr> this = \<lparr> parameter = Parameter_default, bundleCollector = [],
                solver = Some [Initialize 2 Continuous, SetObjective (the_objective Parameter_default 1)] \<rparr>,
       w_var = [0], minValue = Infinity, t_var = 0, cout = [], cerr = [], oracle_calls = [] \<rparr>"
  by (simp add: enter_def setupQp_eq BundleOptimizer_new_def)

lemma scenario_pass:
  assumes "solution (qp [Initialize 2 Continuous, SetObjective (the_objective Parameter_default 1),
                         SetConstraints [Below_xi [0] 5]]) = [0, 5]"
    and "solved_value (qp [Initialize 2 Continuous, SetObjective (the_objective Parameter_default 1),
                         SetConstraints [Below_xi [0] 5]]) = 5"
  shows "\<exists>fr. iteration five_oracle qp (enter (BundleOptimizer_new Parameter_default) [0]) = Inr (fr, 0) \<and>
     this fr = \<lparr> parameter = Parameter_default, bundleCollector = [([0], 5)],
                 solver = Some [Initialize 2 Continuous, SetObjective (the_objective Parameter_default 1),
                         SetConstraints [Below_xi [0] 5], Solve] \<rparr> \<and>
     w_var fr = [0] \<and> minValue fr = Finite 5 \<and> t_var fr = 1 \<and> cout fr = [1] \<and>
     oracle_calls fr = [[0]]"
proof -
  let ?F = "enter (BundleOptimizer_new Parameter_default) [0]"
  let ?H = "[Initialize 2 Continuous, SetObjective (the_objective Parameter_default 1),
                         SetConstraints [Below_xi [0] 5]]"
  have oa: "oracle_answer five_oracle ?F = (5, [0])"
    by (simp add: oracle_answer_def five_oracle_def scenario_enter Weights_def numberOfWeights_def)
  have s: "solver (this ?F) = Some [Initialize 2 Continuous, SetObjective (the_objective Parameter_default 1)]"
    by (simp add: scenario_enter)
  have H: "[Initialize 2 Continuous, SetObjective (the_objective Parameter_default 1)] @
           [SetConstraints (getConstraints (bundleCollector (this ?F) @
             [([0], 5 - (\<Sum>k < length (w_var ?F). w_var ?F ! k + [0] ! k))]))] = ?H"
    by (simp add: scenario_enter getConstraints_def)
  have mv: "new_minValue (minValue ?F) (regularized (parameter (this ?F)) 5 (w_var ?F)) = 5"
    by (simp add: scenario_enter new_minValue_def regularized_def)
  from iteration_InrI[OF oa _ s, of qp] obtain fr where
    fr: "iteration five_oracle qp ?F = Inr (fr, 0)"
    unfolding H mv using assms by (auto simp: scenario_enter)
  from fr show ?thesis
  proof (rule iteration_InrE)
    fix L a s0 r
    assume "oracle_answer five_oracle ?F = (L, a)"
    with oa have La: "L = 5" "a = [0]" by simp_all
    assume "solver (this ?F) = Some s0"
    with s have s0: "s0 = [Initialize 2 Continuous, SetObjective (the_objective Parameter_default 1)]" by simp
    assume "r = qp (s0 @ [SetConstraints (getConstraints (bundleCollector (this ?F) @
               [(a, L - (\<Sum>k < length (w_var ?F). w_var ?F ! k + a ! k))]))])"
    then have r: "r = qp ?H" unfolding La s0 H .
    assume "this fr = (this ?F) \<lparr> bundleCollector := bundleCollector (this ?F) @
               [(a, L - (\<Sum>k < length (w_var ?F). w_var ?F ! k + a ! k))],
          solver := Some (s0 @ [SetConstraints (getConstraints (bundleCollector (this ?F) @
               [(a, L - (\<Sum>k < length (w_var ?F). w_var ?F ! k + a ! k))])), Solve]) \<rparr>"
    then have 1: "this fr = \<lparr> parameter = Parameter_default, bundleCollector = [([0], 5)],
                 solver = Some [Initialize 2 Continuous, SetObjective (the_objective Parameter_default 1),
                         SetConstraints [Below_xi [0] 5], Solve] \<rparr>"
      unfolding La s0 by (simp add: scenario_enter getConstraints_def)
    assume "w_var fr = take (length (w_var ?F)) (solution r)"
    then have 2: "w_var fr = [0]" using assms by (simp add: r scenario_enter)
    assume "minValue fr = Finite (new_minValue (minValue ?F) (regularized (parameter (this ?F)) L (w_var ?F)))"
    then have 3: "minValue fr = Finite 5" unfolding La mv .
    assume "t_var fr = t_var ?F + 1" "cout fr = cout ?F @ [t_var ?F + 1]"
      "oracle_calls fr = oracle_calls ?F @ [w_var ?F]"
    then have 4: "t_var fr = 1" "cout fr = [1]" "oracle_calls fr = [[0]]"
      by (simp_all add: scenario_enter)
    from fr 1 2 3 4 show ?thesis by blast
  qed
qed

lemma scenario_objective_value:
  "objective_value (the_objective Parameter_default (Suc 0)) x = x ! 0 * x ! 0 / 2 + x ! Suc 0"
  by (simp add: objective_value_def the_objective_def Parameter_default_def lessThan_Suc)

lemma numVariables_the_objective: "numVariables (the_objective p n) = n + 1"
  by (simp add: the_objective_def)

lemma scenario_optimum:
  assumes "qp_optimum (the_objective Parameter_default 1) [Below_xi [0] 5] x v"
  shows "x = [0, 5] \<and> v = 5"
proof -
  from assms have len: "length x = 2"
    and feas: "5 \<le> x ! Suc 0"
    and v: "v = x ! 0 * x ! 0 / 2 + x ! Suc 0"
    and least: "\<And>y. length y = 2 \<Longrightarrow> 5 \<le> y ! Suc 0 \<Longrightarrow>
                  x ! 0 * x ! 0 / 2 + x ! Suc 0 \<le> y ! 0 * y ! 0 / 2 + y ! Suc 0"
    by (simp_all add: qp_optimum_def scenario_objective_value inner_product_def
        numVariables_the_objective)
  from least[of "[0, 5]"] have le: "x ! 0 * x ! 0 / 2 + x ! Suc 0 \<le> 5" by simp
  have "0 \<le> x ! 0 * x ! 0" by simp
  with le feas have sq: "x ! 0 * x ! 0 = 0" and x1: "x ! Suc 0 = 5" by linarith+
  then have x0: "x ! 0 = 0" by simp
  from len obtain p q where "x = [p, q]"
    by (cases x; cases "tl x") (auto simp: length_Suc_conv)
  with x0 x1 v show ?thesis by simp
qed

lemma scenario_exact:
  assumes "solves_exactly qp [Initialize 2 Continuous, SetObjective (the_objective Parameter_default 1),
                         SetConstraints [Below_xi [0] 5]]"
  shows "solution (qp [Initialize 2 Continuous, SetObjective (the_objective Parameter_default 1),
                         SetConstraints [Below_xi [0] 5]]) = [0, 5] \<and>
         solved_value (qp [Initialize 2 Continuous, SetObjective (the_objective Parameter_default 1),
                         SetConstraints [Below_xi [0] 5]]) = 5"
  using assms by (intro scenario_optimum) (simp add: solves_exactly_def)

lemma scenario_optimize:
  assumes "iteration orc qp (enter self w) = Inr (fr, eps)"
    and "eps \<le> min_gap (parameter (this fr))"
  shows "optimize orc qp self w = Some (Inr (ReachedMinGap, fr))"
  using assms by (simp add: optimize_def optimize_loop.simps[of orc qp "enter self w"])

lemma stalled_iteration:
  assumes "stalled fr"
  shows "\<exists>fr'. iteration five_oracle zero_backend fr = Inr (fr', 5) \<and> stalled fr'"
proof -
  from assms obtain s0 where s0: "solver (this fr) = Some s0" and w: "w_var fr = [0]"
    and g: "min_gap (parameter (this fr)) = 1 / 100000"
    and mv: "minValue fr = Infinity \<or> minValue fr = Finite 5"
    by (auto simp: stalled_def)
  have oa: "oracle_answer five_oracle fr = (5, [0])"
    by (simp add: oracle_answer_def five_oracle_def w Weights_def numberOfWeights_def)
  have nm: "new_minValue (minValue fr) (regularized (parameter (this fr)) 5 (w_var fr)) = 5"
    using mv by (auto simp: new_minValue_def regularized_def w)
  from iteration_InrI[OF oa _ s0, of zero_backend] obtain fr' where
    fr': "iteration five_oracle zero_backend fr = Inr (fr', 5)"
    unfolding nm by (auto simp: w zero_backend_def)
  from fr' have "stalled fr'"
  proof (rule iteration_InrE)
    fix L a s r
    assume "oracle_answer five_oracle fr = (L, a)"
    with oa have La: "L = 5" "a = [0]" by simp_all
    assume "r = zero_backend (s @ [SetConstraints (getConstraints (bundleCollector (this fr) @
               [(a, L - (\<Sum>k < length (w_var fr). w_var fr ! k + a ! k))]))])"
    then have r: "solution r = [0, 0]" by (simp add: zero_backend_def)
    assume "this fr' = (this fr) \<lparr> bundleCollector := bundleCollector (this fr) @
               [(a, L - (\<Sum>k < length (w_var fr). w_var fr ! k + a ! k))],
          solver := Some (s @ [SetConstraints (getConstraints (bundleCollector (this fr) @
               [(a, L - (\<Sum>k < length (w_var fr). w_var fr ! k + a ! k))])), Solve]) \<rparr>"
    then have 1: "solver (this fr') \<noteq> None" "min_gap (parameter (this fr')) = 1 / 100000"
      using g by simp_all
    assume "w_var fr' = take (length (w_var fr)) (solution r)"
    then have 2: "w_var fr' = [0]" by (simp add: r w)
    assume "minValue fr' = Finite (new_minValue (minValue fr) (regularized (parameter (this fr)) L (w_var fr)))"
    then have 3: "minValue fr' = Finite 5" unfolding La nm .
    from 1 2 3 show ?thesis by (simp add: stalled_def)
  qed
  with fr' show ?thesis by blast
qed

lemma stalled_nth_pass:
  "stalled fr \<Longrightarrow> \<exists>fr'. nth_pass n five_oracle zero_backend fr = Some (Inr (fr', 5)) \<and> stalled fr'"
proof (induction n arbitrary: fr)
  case 0
  with stalled_iteration show ?case by simp
next
  case (Suc n)
  from stalled_iteration[OF Suc.prems] obtain fr1 where
    1: "iteration five_oracle zero_backend fr = Inr (fr1, 5)" "stalled fr1" by blast
  then have "\<not> 5 \<le> min_gap (parameter (this fr1))" by (simp add: stalled_def)
  with 1 have "nth_pass (Suc n) five_oracle zero_backend fr = nth_pass n five_oracle zero_backend fr1"
    by simp
  with Suc.IH[OF 1(2)] show ?case by simp
qed

lemma stalled_enter:
  "stalled (enter (BundleOptimizer_new (Parameter_default \<lparr> steps := 1 \<rparr>)) [0])"
  by (simp add: stalled_def enter_def setupQp_eq BundleOptimizer_new_def Parameter_default_def)


lemma scenario_five:
  "\<exists>fr. iteration five_oracle five_backend (enter (BundleOptimizer_new Parameter_default) [0]) = Inr (fr, 0) \<and>
     this fr = \<lparr> parameter = Parameter_default, bundleCollector = [([0], 5)],
                 solver = Some [Initialize 2 Continuous, SetObjective (the_objective Parameter_default 1),
                         SetConstraints [Below_xi [0] 5], Solve] \<rparr> \<and>
     w_var fr = [0] \<and> minValue fr = Finite 5 \<and> t_var fr = 1 \<and> cout fr = [1] \<and>
     oracle_calls fr = [[0]]"
  by (rule scenario_pass) (simp_all add: five_backend_def)

subsection \<open>The gap of a pass\<close>

lemma iteration_gap:
  assumes "iteration orc qp f = Inr (fr', eps)"
  shows "\<exists>m h. minValue fr' = Finite m \<and>
     solver (this fr') =
       Some (h @ [SetConstraints (getConstraints (bundleCollector (this fr'))), Solve]) \<and>
     eps = m - solved_value (qp (h @ [SetConstraints (getConstraints (bundleCollector (this fr')))]))"
  using assms
proof (rule iteration_InrE)
  fix L a s0 r
  let ?B = "bundleCollector (this f) @
               [(a, L - (\<Sum>k < length (w_var f). w_var f ! k + a ! k))]"
  let ?m = "new_minValue (minValue f) (regularized (parameter (this f)) L (w_var f))"
  assume r: "r = qp (s0 @ [SetConstraints (getConstraints ?B)])"
    and t: "this fr' = (this f) \<lparr> bundleCollector := ?B,
          solver := Some (s0 @ [SetConstraints (getConstraints ?B), Solve]) \<rparr>"
    and m: "minValue fr' = Finite ?m"
    and e: "eps = ?m - solved_value r"
  from t have B: "bundleCollector (this fr') = ?B"
    and s: "solver (this fr') = Some (s0 @ [SetConstraints (getConstraints ?B), Solve])"
    by simp_all
  have "minValue fr' = Finite ?m \<and>
     solver (this fr') =
       Some (s0 @ [SetConstraints (getConstraints (bundleCollector (this fr'))), Solve]) \<and>
     eps = ?m - solved_value (qp (s0 @ [SetConstraints (getConstraints (bundleCollector (this fr')))]))"
    unfolding B using m s e r by simp
  then show ?thesis by blast
qed

lemma nth_pass_gap:
  assumes "nth_pass n orc qp fr = Some (Inr (fr', eps))"
  shows "\<exists>m h. minValue fr' = Finite m \<and>
     solver (this fr') =
       Some (h @ [SetConstraints (getConstraints (bundleCollector (this fr'))), Solve]) \<and>
     eps = m - solved_value (qp (h @ [SetConstraints (getConstraints (bundleCollector (this fr')))]))"
proof -
  from nth_pass_last[OF assms] obtain f where "iteration orc qp f = Inr (fr', eps)" by blast
  then show ?thesis by (rule iteration_gap)
qed

subsection \<open>More scenarios\<close>




subsection \<open>The objective a solver holds\<close>

lemma installed_objective_append:
  "installed_objective (xs @ ys) =
     (case installed_objective ys of Some obj \<Rightarrow> Some obj | None \<Rightarrow> installed_objective xs)"
  by (induction xs) (auto split: option.splits)

lemma installed_objective_quiet:
  "list_all (\<lambda>c. \<not> changes_objective c) cs \<Longrightarrow> installed_objective cs = None"
proof (induction cs)
  case Nil
  show ?case by simp
next
  case (Cons c cs)
  then show ?case by (cases c) simp_all
qed

lemma solver_enter: "solver (this (enter self w)) = solver (setupQp w self)"
  by (simp add: enter_def)

section \<open>The inner product\<close>

text \<open>
  C1. The claim: for vectors of equal arity, \<open>dot(a, b)\<close> is the standard inner product
  \<open>\<Sum>\<^sub>i a\<^sub>i \<cdot> b\<^sub>i\<close>. The loop of \<open>dot\<close> adds \<open>a[i] + b[i]\<close>: on the vectors \<open>(2)\<close> and
  \<open>(3)\<close> it returns \<open>5\<close>, and the inner product is \<open>6\<close>.
\<close>

theorem dot_adds_the_components:
  "dot [2] [3] = Inr 5 \<and> inner_product [2] [3] = 6"
  by (simp add: dot_eq inner_product_def)

text \<open>
  C8. \<open>dot\<close> on vectors of different arity fails with the dimension mismatch, whatever
  the vectors hold, and computes no value; on vectors of equal arity it does not fail.
\<close>

theorem dot_rejects_unequal_arity:
  "(numberOfParameters a \<noteq> numberOfParameters b \<longrightarrow> dot a b = Inl DimensionMismatch) \<and>
   (numberOfParameters a = numberOfParameters b \<longrightarrow> (\<exists>d. dot a b = Inr d))"
  by (simp add: dot_def)

theorem dot_rejects_unequal_arity_witness:
  "numberOfParameters [1, 2, 3] \<noteq> numberOfParameters [1, 2, 3, 4] \<and>
   dot [1, 2, 3] [1, 2, 3, 4] = Inl DimensionMismatch \<and>
   numberOfParameters [1, 2, 3] = numberOfParameters [4, 5, 6] \<and>
   (\<exists>d. dot [1, 2, 3] [4, 5, 6] = Inr d)"
  using dot_rejects_unequal_arity [of "[1, 2, 3]" "[1, 2, 3, 4]"]
        dot_rejects_unequal_arity [of "[1, 2, 3]" "[4, 5, 6]"]
  by (simp add: numberOfParameters_def)

section \<open>The loop of optimize\<close>

text \<open>
  C2. \<open>optimize\<close> returns exactly when some pass through the loop computes a gap
  \<open>eps_t \<le> min_gap\<close>, where \<open>eps_t = minValue - minLower\<close> is the difference of \<open>minValue\<close> as
  the pass leaves it and the value the solver reports for the \<open>solve\<close> of that pass, made on
  the constraints of all stored hyperplanes; it then returns \<open>ReachedMinGap\<close> with the
  frame of that pass, and it returns no other result. It runs forever exactly when every
  pass is made and has such a gap above \<open>min_gap\<close>. The member \<open>steps\<close> plays no part: with
  any other value \<open>k\<close> of it the call does the same, and leaves the same frame but for
  that member.
\<close>

theorem optimize_returns_exactly_on_min_gap:
  "(optimize orc qp self w = Some (Inr (res, fr')) \<longleftrightarrow>
      res = ReachedMinGap \<and>
      (\<exists>n eps m h.
         nth_pass n orc qp (enter self w) = Some (Inr (fr', eps)) \<and>
         minValue fr' = Finite m \<and>
         solver (this fr') =
           Some (h @ [SetConstraints (getConstraints (bundleCollector (this fr'))), Solve]) \<and>
         eps = m - solved_value
                 (qp (h @ [SetConstraints (getConstraints (bundleCollector (this fr')))])) \<and>
         eps \<le> min_gap (parameter self))) \<and>
   (optimize orc qp self w = None \<longleftrightarrow>
      (\<forall>n. \<exists>fr eps m h.
         nth_pass n orc qp (enter self w) = Some (Inr (fr, eps)) \<and>
         minValue fr = Finite m \<and>
         solver (this fr) =
           Some (h @ [SetConstraints (getConstraints (bundleCollector (this fr))), Solve]) \<and>
         eps = m - solved_value
                 (qp (h @ [SetConstraints (getConstraints (bundleCollector (this fr)))])) \<and>
         min_gap (parameter self) < eps)) \<and>
   optimize orc qp (self \<lparr> parameter := (parameter self) \<lparr> steps := k \<rparr> \<rparr>) w =
     map_option (map_sum id (map_prod id (with_steps k))) (optimize orc qp self w)"
proof (intro conjI)
  let ?gap = "\<lambda>fr eps. \<exists>m h. minValue fr = Finite m \<and>
         solver (this fr) =
           Some (h @ [SetConstraints (getConstraints (bundleCollector (this fr))), Solve]) \<and>
         eps = m - solved_value
                 (qp (h @ [SetConstraints (getConstraints (bundleCollector (this fr)))]))"
  have gap: "?gap fr eps" if "nth_pass n orc qp (enter self w) = Some (Inr (fr, eps))" for n fr eps
    using nth_pass_gap[OF that] .
  show "optimize orc qp self w = Some (Inr (res, fr')) \<longleftrightarrow>
      res = ReachedMinGap \<and>
      (\<exists>n eps m h.
         nth_pass n orc qp (enter self w) = Some (Inr (fr', eps)) \<and>
         minValue fr' = Finite m \<and>
         solver (this fr') =
           Some (h @ [SetConstraints (getConstraints (bundleCollector (this fr'))), Solve]) \<and>
         eps = m - solved_value
                 (qp (h @ [SetConstraints (getConstraints (bundleCollector (this fr')))])) \<and>
         eps \<le> min_gap (parameter self))"
  proof -
    have "optimize orc qp self w = Some (Inr (res, fr')) \<longleftrightarrow>
      res = ReachedMinGap \<and> optimize_loop orc qp (enter self w) = Some (Inr fr')"
      by (auto simp: optimize_def split: option.splits sum.splits)
    also have "\<dots> \<longleftrightarrow> res = ReachedMinGap \<and>
      (\<exists>n eps. nth_pass n orc qp (enter self w) = Some (Inr (fr', eps)) \<and>
               eps \<le> min_gap (parameter self))"
      unfolding loop_Inr_iff
      using nth_pass_parameter[of _ orc qp self w fr'] by metis
    also have "\<dots> \<longleftrightarrow> res = ReachedMinGap \<and>
      (\<exists>n eps. nth_pass n orc qp (enter self w) = Some (Inr (fr', eps)) \<and> ?gap fr' eps \<and>
               eps \<le> min_gap (parameter self))"
      using gap by blast
    finally show ?thesis by blast
  qed
  show "optimize orc qp self w = None \<longleftrightarrow>
      (\<forall>n. \<exists>fr eps m h.
         nth_pass n orc qp (enter self w) = Some (Inr (fr, eps)) \<and>
         minValue fr = Finite m \<and>
         solver (this fr) =
           Some (h @ [SetConstraints (getConstraints (bundleCollector (this fr))), Solve]) \<and>
         eps = m - solved_value
                 (qp (h @ [SetConstraints (getConstraints (bundleCollector (this fr)))])) \<and>
         min_gap (parameter self) < eps)"
  proof -
    have "optimize orc qp self w = None \<longleftrightarrow> optimize_loop orc qp (enter self w) = None"
      by (auto simp: optimize_def split: option.splits sum.splits)
    also have "\<dots> \<longleftrightarrow> (\<forall>n. \<exists>fr eps. nth_pass n orc qp (enter self w) = Some (Inr (fr, eps)) \<and>
                   min_gap (parameter self) < eps)"
      unfolding loop_None_iff
      using nth_pass_parameter[of _ orc qp self w] by metis
    also have "\<dots> \<longleftrightarrow> (\<forall>n. \<exists>fr eps. nth_pass n orc qp (enter self w) = Some (Inr (fr, eps)) \<and>
                   ?gap fr eps \<and> min_gap (parameter self) < eps)"
      using gap by blast
    finally show ?thesis by blast
  qed
  show "optimize orc qp (self \<lparr> parameter := (parameter self) \<lparr> steps := k \<rparr> \<rparr>) w =
     map_option (map_sum id (map_prod id (with_steps k))) (optimize orc qp self w)"
    by (simp add: optimize_def enter_with_steps loop_with_steps split: option.splits sum.splits)
qed

theorem optimize_returns_exactly_on_min_gap_witness:
  "(\<exists>fr n eps m h.
      optimize five_oracle five_backend (BundleOptimizer_new Parameter_default) [0] =
        Some (Inr (ReachedMinGap, fr)) \<and>
      nth_pass n five_oracle five_backend (enter (BundleOptimizer_new Parameter_default) [0]) =
        Some (Inr (fr, eps)) \<and>
      minValue fr = Finite m \<and> m = 5 \<and>
      solver (this fr) =
        Some (h @ [SetConstraints (getConstraints (bundleCollector (this fr))), Solve]) \<and>
      eps = m - solved_value
              (five_backend (h @ [SetConstraints (getConstraints (bundleCollector (this fr)))])) \<and>
      eps = 0 \<and>
      eps \<le> min_gap (parameter (BundleOptimizer_new Parameter_default)) \<and>
      optimize five_oracle five_backend
        ((BundleOptimizer_new Parameter_default)
           \<lparr> parameter := (parameter (BundleOptimizer_new Parameter_default)) \<lparr> steps := 1 \<rparr> \<rparr>) [0] =
        Some (Inr (ReachedMinGap, with_steps 1 fr))) \<and>
   (\<forall>n. \<exists>fr eps m h.
      nth_pass n five_oracle zero_backend
        (enter (BundleOptimizer_new (Parameter_default \<lparr> steps := 1 \<rparr>)) [0]) = Some (Inr (fr, eps)) \<and>
      minValue fr = Finite m \<and>
      solver (this fr) =
        Some (h @ [SetConstraints (getConstraints (bundleCollector (this fr))), Solve]) \<and>
      eps = m - solved_value
              (zero_backend (h @ [SetConstraints (getConstraints (bundleCollector (this fr)))])) \<and>
      min_gap (parameter (BundleOptimizer_new (Parameter_default \<lparr> steps := 1 \<rparr>))) < eps) \<and>
   optimize five_oracle zero_backend (BundleOptimizer_new (Parameter_default \<lparr> steps := 1 \<rparr>)) [0] = None"
proof -
  let ?S = "BundleOptimizer_new Parameter_default"
  let ?S1 = "BundleOptimizer_new (Parameter_default \<lparr> steps := 1 \<rparr>)"
  note C = optimize_returns_exactly_on_min_gap
  from scenario_five obtain fr where
    fr: "iteration five_oracle five_backend (enter ?S [0]) = Inr (fr, 0)"
      "this fr = \<lparr> parameter = Parameter_default, bundleCollector = [([0], 5)],
                 solver = Some [Initialize 2 Continuous, SetObjective (the_objective Parameter_default 1),
                         SetConstraints [Below_xi [0] 5], Solve] \<rparr>"
      "minValue fr = Finite 5"
    by blast
  have "(0::real) \<le> min_gap (parameter (this fr))"
    by (simp add: fr(2) Parameter_default_def)
  from scenario_optimize[OF fr(1) this]
  have run: "optimize five_oracle five_backend ?S [0] = Some (Inr (ReachedMinGap, fr))" .
  with C[of five_oracle five_backend ?S "[0]" ReachedMinGap fr 1]
  obtain n eps m h where
    1: "nth_pass n five_oracle five_backend (enter ?S [0]) = Some (Inr (fr, eps))"
       "minValue fr = Finite m"
       "solver (this fr) =
          Some (h @ [SetConstraints (getConstraints (bundleCollector (this fr))), Solve])"
       "eps = m - solved_value
              (five_backend (h @ [SetConstraints (getConstraints (bundleCollector (this fr)))]))"
       "eps \<le> min_gap (parameter ?S)"
    by blast
  from 1(2) fr(3) have m: "m = 5" by simp
  with 1(4) have e: "eps = 0" by (simp add: five_backend_def)
  from run C[of five_oracle five_backend ?S "[0]" ReachedMinGap fr 1]
  have 2: "optimize five_oracle five_backend (?S \<lparr> parameter := (parameter ?S) \<lparr> steps := 1 \<rparr> \<rparr>) [0] =
              Some (Inr (ReachedMinGap, with_steps 1 fr))"
    by simp
  have 3: "\<forall>n. \<exists>fr eps m h.
      nth_pass n five_oracle zero_backend (enter ?S1 [0]) = Some (Inr (fr, eps)) \<and>
      minValue fr = Finite m \<and>
      solver (this fr) =
        Some (h @ [SetConstraints (getConstraints (bundleCollector (this fr))), Solve]) \<and>
      eps = m - solved_value
              (zero_backend (h @ [SetConstraints (getConstraints (bundleCollector (this fr)))])) \<and>
      min_gap (parameter ?S1) < eps"
  proof
    fix n
    from stalled_nth_pass[OF stalled_enter, of n] obtain f where
      f: "nth_pass n five_oracle zero_backend (enter ?S1 [0]) = Some (Inr (f, 5))" by blast
    moreover have "min_gap (parameter ?S1) < 5"
      by (simp add: BundleOptimizer_new_def Parameter_default_def)
    moreover note nth_pass_gap[OF f]
    ultimately show "\<exists>fr eps m h.
      nth_pass n five_oracle zero_backend (enter ?S1 [0]) = Some (Inr (fr, eps)) \<and>
      minValue fr = Finite m \<and>
      solver (this fr) =
        Some (h @ [SetConstraints (getConstraints (bundleCollector (this fr))), Solve]) \<and>
      eps = m - solved_value
              (zero_backend (h @ [SetConstraints (getConstraints (bundleCollector (this fr)))])) \<and>
      min_gap (parameter ?S1) < eps" by blast
  qed
  with C[of five_oracle zero_backend ?S1 "[0]" ReachedMinGap fr 1]
  have 4: "optimize five_oracle zero_backend ?S1 [0] = None" by blast
  from run 1 m e 2 3 4 show ?thesis by blast
qed

section \<open>The scenario of the constant oracle\<close>

text \<open>
  C3. The oracle is constantly \<open>5\<close> with gradient \<open>0\<close>, \<open>lambda = 1.0\<close>, \<open>min_gap = 1e-5\<close>, the
  weight vector is \<open>(0)\<close>, the optimizer is new, and the solver answers the one \<open>solve\<close> it
  is asked with an optimum of the problem it then holds. Then \<open>optimize\<close> returns
  \<open>ReachedMinGap\<close> from the first pass, whose gap is \<open>5 - 5\<close>; the hyperplane stored is
  \<open>(0, 5)\<close>, the solver's answer is \<open>w = 0\<close>, \<open>\<xi> = 5\<close> with value \<open>5\<close>, the iteration counter is
  \<open>1\<close>, the oracle has been called once, and the final weight is \<open>0\<close>.
\<close>

theorem constant_oracle_scenario:
  assumes "solves_exactly qp
     [Initialize 2 Continuous, SetObjective (the_objective Parameter_default 1),
      SetConstraints (getConstraints [([0], 5)])]"
  shows "\<exists>fr. optimize five_oracle qp (BundleOptimizer_new Parameter_default) [0] =
             Some (Inr (ReachedMinGap, fr)) \<and>
     nth_pass 0 five_oracle qp (enter (BundleOptimizer_new Parameter_default) [0]) =
             Some (Inr (fr, 5 - 5)) \<and>
     bundleCollector (this fr) = [([0], 5)] \<and>
     solver (this fr) =
       Some [Initialize 2 Continuous, SetObjective (the_objective Parameter_default 1),
             SetConstraints (getConstraints [([0], 5)]), Solve] \<and>
     solution (qp [Initialize 2 Continuous, SetObjective (the_objective Parameter_default 1),
                   SetConstraints (getConstraints [([0], 5)])]) = [0, 5] \<and>
     minValue fr = Finite 5 \<and>
     solved_value (qp [Initialize 2 Continuous, SetObjective (the_objective Parameter_default 1),
                   SetConstraints (getConstraints [([0], 5)])]) = 5 \<and>
     t_var fr = 1 \<and> oracle_calls fr = [[0]] \<and> w_var fr = [0]"
proof -
  have gc: "getConstraints [([0], 5)] = [Below_xi [0] 5]"
    by (simp add: getConstraints_def)
  from assms have ex: "solves_exactly qp
     [Initialize 2 Continuous, SetObjective (the_objective Parameter_default 1),
      SetConstraints [Below_xi [0] 5]]" by (simp only: gc)
  note sol = scenario_exact[OF ex]
  from scenario_pass[of qp, OF sol[THEN conjunct1] sol[THEN conjunct2]] obtain fr where
    fr: "iteration five_oracle qp (enter (BundleOptimizer_new Parameter_default) [0]) = Inr (fr, 0)"
     "this fr = \<lparr> parameter = Parameter_default, bundleCollector = [([0], 5)],
                 solver = Some [Initialize 2 Continuous, SetObjective (the_objective Parameter_default 1),
                         SetConstraints [Below_xi [0] 5], Solve] \<rparr>"
     "w_var fr = [0]" "minValue fr = Finite 5" "t_var fr = 1" "cout fr = [1]"
     "oracle_calls fr = [[0]]" by blast
  have "(0::real) \<le> min_gap (parameter (this fr))"
    by (simp add: fr(2) Parameter_default_def)
  from scenario_optimize[OF fr(1) this] fr sol show ?thesis
    by (simp add: gc)
qed

theorem constant_oracle_scenario_witness:
  "solves_exactly five_backend
     [Initialize 2 Continuous, SetObjective (the_objective Parameter_default 1),
      SetConstraints (getConstraints [([0], 5)])] \<and>
   (\<exists>fr. optimize five_oracle five_backend (BundleOptimizer_new Parameter_default) [0] =
             Some (Inr (ReachedMinGap, fr)) \<and> t_var fr = 1 \<and> w_var fr = [0])"
proof -
  have ex: "solves_exactly five_backend
     [Initialize 2 Continuous, SetObjective (the_objective Parameter_default 1),
      SetConstraints (getConstraints [([0], 5)])]"
  proof -
    have "(5::real) \<le> y ! 0 * y ! 0 / 2 + y ! Suc 0" if "5 \<le> y ! Suc 0" for y :: "real list"
    proof -
      have "0 \<le> y ! 0 * y ! 0" by simp
      with that show ?thesis by linarith
    qed
    then show ?thesis
      by (simp add: solves_exactly_def getConstraints_def qp_optimum_def five_backend_def
          scenario_objective_value inner_product_def numVariables_the_objective)
  qed
  from constant_oracle_scenario[OF ex] ex show ?thesis by blast
qed

section \<open>What a pass keeps and adds\<close>




text \<open>
  C5. The claim: the hyperplane a pass appends is \<open>(a_t, b_t)\<close> with \<open>a_t\<close> the gradient the
  oracle returns at the current weights and \<open>b_t = L(w) - \<langle>w, a_t\<rangle>\<close>, the inner product being
  the standard one. The slope is the one claimed; the intercept is computed with \<open>dot\<close>. For
  \<open>L(w) = w + 5\<close> at the weights \<open>(0)\<close> the oracle returns \<open>5\<close> and the gradient \<open>(1)\<close>: the
  pass appends \<open>((1), 4)\<close>, and the claimed intercept is \<open>5 - 0 \<cdot> 1 = 5\<close>.
\<close>

theorem intercept_is_not_the_tangent:
  "\<exists>fr eps.
     oracle_answer line_oracle (enter (BundleOptimizer_new Parameter_default) [0]) = (5, [1]) \<and>
     iteration line_oracle five_backend (enter (BundleOptimizer_new Parameter_default) [0]) =
       Inr (fr, eps) \<and>
     bundleCollector (this fr) = [([1], 4)] \<and>
     5 - inner_product [0] [1] = 5"
proof -
  let ?F = "enter (BundleOptimizer_new Parameter_default) [0]"
  have oa: "oracle_answer line_oracle ?F = (5, [1])"
    by (simp add: oracle_answer_def line_oracle_def scenario_enter)
  have s: "solver (this ?F) =
      Some [Initialize 2 Continuous, SetObjective (the_objective Parameter_default 1)]"
    by (simp add: scenario_enter)
  from iteration_InrI[OF oa _ s, of five_backend] obtain fr eps where
    fr: "iteration line_oracle five_backend ?F = Inr (fr, eps)"
    by (auto simp: scenario_enter five_backend_def)
  from fr have "bundleCollector (this fr) = [([1], 4)]"
  proof (rule iteration_InrE)
    fix L a s0
    assume "oracle_answer line_oracle ?F = (L, a)"
    with oa have La: "L = 5" "a = [1]" by simp_all
    assume "this fr = (this ?F) \<lparr> bundleCollector := bundleCollector (this ?F) @
               [(a, L - (\<Sum>k < length (w_var ?F). w_var ?F ! k + a ! k))],
          solver := Some (s0 @ [SetConstraints (getConstraints (bundleCollector (this ?F) @
               [(a, L - (\<Sum>k < length (w_var ?F). w_var ?F ! k + a ! k))])), Solve]) \<rparr>"
    then show ?thesis unfolding La by (simp add: scenario_enter)
  qed
  with oa fr show ?thesis by (simp add: inner_product_def)
qed

section \<open>The objective\<close>

text \<open>
  C6. \<open>setupQp\<close>, which \<open>optimize\<close> calls once before its loop, initializes the solver for
  \<open>numberOfParameters() + 1\<close> continuous variables and installs one objective: over
  \<open>numberOfWeights() + 1\<close> variables, with the quadratic coefficient \<open>0.5 \<cdot> lambda\<close> at
  \<open>(i, i)\<close> for every weight component \<open>i\<close> and no other, the linear coefficient \<open>1\<close> at the
  last variable and no other, and the sense \<open>Minimize\<close>. In the pass number \<open>n\<close> of the run
  the solver has received, after these two calls, only \<open>setConstraints\<close> and \<open>solve\<close>, with
  \<open>n + 1\<close> calls of \<open>solve\<close>; the objective it holds is still that one.
\<close>

theorem objective_is_installed_once:
  "(\<exists>s0. solver (this (enter self w)) = Some s0 \<and>
      s0 = (case solver self of None \<Rightarrow> [] | Some s \<Rightarrow> s) @
           [Initialize (numberOfParameters w + 1) Continuous,
            SetObjective (the_objective (parameter self) (numberOfWeights w))] \<and>
      (nth_pass n orc qp (enter self w) = Some (Inr (fr, eps)) \<longrightarrow>
         (\<exists>rest. solver (this fr) = Some (s0 @ rest) \<and>
            list_all (\<lambda>c. \<not> changes_objective c) rest \<and>
            length (filter is_Solve rest) = Suc n \<and>
            installed_objective (s0 @ rest) =
              Some (the_objective (parameter self) (numberOfWeights w))))) \<and>
   numVariables (the_objective (parameter self) (numberOfWeights w)) = numberOfWeights w + 1 \<and>
   quadraticCoefficients (the_objective (parameter self) (numberOfWeights w)) (i, j) =
     (if i = j \<and> i < numberOfWeights w then Some (0.5 * lambda (parameter self)) else None) \<and>
   coefficients (the_objective (parameter self) (numberOfWeights w)) k =
     (if k = numberOfWeights w then Some 1.0 else None) \<and>
   sense (the_objective (parameter self) (numberOfWeights w)) = Some Minimize"
proof -
  let ?obj = "the_objective (parameter self) (numberOfWeights w)"
  let ?s0 = "(case solver self of None \<Rightarrow> [] | Some s \<Rightarrow> s) @
           [Initialize (numberOfParameters w + 1) Continuous, SetObjective ?obj]"
  have s0: "solver (this (enter self w)) = Some ?s0"
    by (simp add: solver_enter setupQp_eq numberOfParameters_def numberOfWeights_def)
  have run: "\<exists>rest. solver (this fr) = Some (?s0 @ rest) \<and>
            list_all (\<lambda>c. \<not> changes_objective c) rest \<and>
            length (filter is_Solve rest) = Suc n \<and>
            installed_objective (?s0 @ rest) = Some ?obj"
    if "nth_pass n orc qp (enter self w) = Some (Inr (fr, eps))"
  proof -
    from nth_pass_advanced[OF that] obtain s rest where
      r: "solver (this (enter self w)) = Some s" "solver (this fr) = Some (s @ rest)"
         "list_all (\<lambda>c. \<not> changes_objective c) rest" "length (filter is_Solve rest) = Suc n"
      unfolding advanced_def by blast
    from r(1) s0 have s: "s = ?s0" by simp
    have "installed_objective (?s0 @ rest) = Some ?obj"
      using installed_objective_quiet[OF r(3)]
      by (simp add: installed_objective_append)
    with r s show ?thesis by blast
  qed
  have obj: "numVariables ?obj = numberOfWeights w + 1"
    "quadraticCoefficients ?obj (i, j) =
       (if i = j \<and> i < numberOfWeights w then Some (0.5 * lambda (parameter self)) else None)"
    "coefficients ?obj k = (if k = numberOfWeights w then Some 1.0 else None)"
    "sense ?obj = Some Minimize"
    by (simp_all add: the_objective_def)
  from s0 run obj show ?thesis by blast
qed

theorem objective_is_installed_once_witness:
  "\<exists>fr rest.
     nth_pass 0 five_oracle five_backend (enter (BundleOptimizer_new Parameter_default) [0]) =
       Some (Inr (fr, 0)) \<and>
     solver (this fr) =
       Some ([Initialize 2 Continuous, SetObjective (the_objective Parameter_default 1)] @ rest) \<and>
     rest = [SetConstraints [Below_xi [0] 5], Solve] \<and>
     list_all (\<lambda>c. \<not> changes_objective c) rest \<and>
     length (filter is_Solve rest) = Suc 0 \<and>
     installed_objective
       ([Initialize 2 Continuous, SetObjective (the_objective Parameter_default 1)] @ rest) =
       Some (the_objective Parameter_default 1)"
proof -
  let ?S = "BundleOptimizer_new Parameter_default"
  from scenario_five obtain fr where
    fr: "iteration five_oracle five_backend (enter ?S [0]) = Inr (fr, 0)"
      "this fr = \<lparr> parameter = Parameter_default, bundleCollector = [([0], 5)],
                 solver = Some [Initialize 2 Continuous, SetObjective (the_objective Parameter_default 1),
                         SetConstraints [Below_xi [0] 5], Solve] \<rparr>"
    by blast
  from fr(1) have p: "nth_pass 0 five_oracle five_backend (enter ?S [0]) = Some (Inr (fr, 0))"
    by simp
  have S: "(case solver ?S of None \<Rightarrow> [] | Some s \<Rightarrow> s) @
           [Initialize (numberOfParameters [0] + 1) Continuous,
            SetObjective (the_objective Parameter_default 1)] =
           [Initialize 2 Continuous, SetObjective (the_objective Parameter_default 1)]"
    by (simp add: BundleOptimizer_new_def numberOfWeights_def numberOfParameters_def)
  have N: "the_objective (parameter ?S) (numberOfWeights [0]) = the_objective Parameter_default 1"
    by (simp add: BundleOptimizer_new_def numberOfWeights_def)
  from objective_is_installed_once[of ?S "[0]" 0 five_oracle five_backend fr 0 0 0 1] p
  obtain rest where
    rest: "solver (this fr) =
       Some ([Initialize 2 Continuous, SetObjective (the_objective Parameter_default 1)] @ rest)"
      "list_all (\<lambda>c. \<not> changes_objective c) rest" "length (filter is_Solve rest) = Suc 0"
      "installed_objective
        ([Initialize 2 Continuous, SetObjective (the_objective Parameter_default 1)] @ rest) =
        Some (the_objective Parameter_default 1)"
    unfolding N S by blast
  from rest(1) have "rest = [SetConstraints [Below_xi [0] 5], Solve]"
    by (simp add: fr(2))
  with p rest show ?thesis by blast
qed

section \<open>findMinLowerBound\<close>

text \<open>
  C7. When the solver's answer is flagged as not optimal, \<open>findMinLowerBound\<close> still
  succeeds: it returns the solver's value, the weights are the first components of the
  solver's solution, and one line with the solver's message is added to \<open>std::cerr\<close>. But for
  that line, the outcome is the one for the same answer flagged as optimal.
\<close>

theorem nonoptimal_answer_is_adopted:
  assumes "solver (this fr) = Some s"
    and "r = qp (s @ [SetConstraints (getConstraints (bundleCollector (this fr)))])"
    and "numberOfParameters (w_var fr) \<le> length (solution r)"
    and "\<not> optimal r"
  shows "\<exists>fr'. findMinLowerBound qp fr = Inr (fr', solved_value r) \<and>
     w_var fr' = take (numberOfParameters (w_var fr)) (solution r) \<and>
     cerr fr' = cerr fr @ [''[BundleOptimizer] QP could not be solved to optimality: '' @ msg r] \<and>
     findMinLowerBound (\<lambda>h. (qp h) \<lparr> optimal := True \<rparr>) fr =
       Inr (fr' \<lparr> cerr := cerr fr \<rparr>, solved_value r)"
  using assms by (simp add: findMinLowerBound_eq Let_def numberOfParameters_def)

theorem nonoptimal_answer_is_adopted_witness:
  "solver (this (enter (BundleOptimizer_new Parameter_default) [3])) =
     Some [Initialize 2 Continuous, SetObjective (the_objective Parameter_default 1)] \<and>
   numberOfParameters (w_var (enter (BundleOptimizer_new Parameter_default) [3]))
     \<le> length (solution (zero_backend
          ([Initialize 2 Continuous, SetObjective (the_objective Parameter_default 1)] @
           [SetConstraints (getConstraints
              (bundleCollector (this (enter (BundleOptimizer_new Parameter_default) [3]))))]))) \<and>
   \<not> optimal (zero_backend
          ([Initialize 2 Continuous, SetObjective (the_objective Parameter_default 1)] @
           [SetConstraints (getConstraints
              (bundleCollector (this (enter (BundleOptimizer_new Parameter_default) [3]))))])) \<and>
   (\<exists>fr'. findMinLowerBound zero_backend (enter (BundleOptimizer_new Parameter_default) [3]) =
            Inr (fr', 0) \<and>
          w_var fr' = [0] \<and>
          cerr fr' = [''[BundleOptimizer] QP could not be solved to optimality: stalled''])"
proof -
  let ?F = "enter (BundleOptimizer_new Parameter_default) [3]"
  let ?s = "[Initialize 2 Continuous, SetObjective (the_objective Parameter_default 1)]"
  have s: "solver (this ?F) = Some ?s"
    by (simp add: enter_def setupQp_eq BundleOptimizer_new_def)
  have n: "numberOfParameters (w_var ?F) \<le> length (solution (zero_backend
          (?s @ [SetConstraints (getConstraints (bundleCollector (this ?F)))])))"
    by (simp add: enter_def zero_backend_def numberOfParameters_def)
  have o: "\<not> optimal (zero_backend
          (?s @ [SetConstraints (getConstraints (bundleCollector (this ?F)))]))"
    by (simp add: zero_backend_def)
  from nonoptimal_answer_is_adopted[of ?F ?s _ zero_backend, OF s refl n o] obtain fr' where
    "findMinLowerBound zero_backend ?F = Inr (fr', solved_value (zero_backend
          (?s @ [SetConstraints (getConstraints (bundleCollector (this ?F)))])))"
    "w_var fr' = take (numberOfParameters (w_var ?F)) (solution (zero_backend
          (?s @ [SetConstraints (getConstraints (bundleCollector (this ?F)))])))"
    "cerr fr' = cerr ?F @ [''[BundleOptimizer] QP could not be solved to optimality: '' @
       msg (zero_backend (?s @ [SetConstraints (getConstraints (bundleCollector (this ?F)))]))]"
    by blast
  then have "findMinLowerBound zero_backend ?F = Inr (fr', 0)" "w_var fr' = [0]"
    "cerr fr' = [''[BundleOptimizer] QP could not be solved to optimality: stalled'']"
    by (simp_all add: zero_backend_def numberOfParameters_def enter_def)
  with s n o show ?thesis by blast
qed

text \<open>
  C9. A call of \<open>findMinLowerBound\<close> that succeeds leaves the weight vector with the first
  \<open>numberOfParameters()\<close> components of the solver's solution in its first
  \<open>numberOfParameters()\<close> places, component by component, and with what it held before in
  the places from \<open>numberOfParameters()\<close> on; its length is the same. So a pass of the loop,
  and any number of passes, keep the length and the places from \<open>numberOfParameters()\<close> on.
\<close>

theorem findMinLowerBound_writes_the_parameters:
  "(findMinLowerBound qp fr = Inr (fr', v) \<longrightarrow>
      (\<exists>s. solver (this fr) = Some s \<and>
         w_var fr' =
           take (numberOfParameters (w_var fr))
             (solution (qp (s @ [SetConstraints (getConstraints (bundleCollector (this fr)))]))) @
           drop (numberOfParameters (w_var fr)) (w_var fr) \<and>
         (\<forall>i < numberOfParameters (w_var fr).
            w_var fr' ! i =
            solution (qp (s @ [SetConstraints (getConstraints (bundleCollector (this fr)))])) ! i)) \<and>
      length (w_var fr') = length (w_var fr)) \<and>
   (iteration orc qp fr = Inr (fr', eps) \<longrightarrow>
      length (w_var fr') = length (w_var fr) \<and>
      drop (numberOfParameters (w_var fr)) (w_var fr') =
      drop (numberOfParameters (w_var fr)) (w_var fr)) \<and>
   (nth_pass n orc qp fr = Some (Inr (fr', eps)) \<longrightarrow>
      length (w_var fr') = length (w_var fr) \<and>
      drop (numberOfParameters (w_var fr)) (w_var fr') =
      drop (numberOfParameters (w_var fr)) (w_var fr))"
proof (intro conjI impI)
  assume f: "findMinLowerBound qp fr = Inr (fr', v)"
  then obtain s where s: "solver (this fr) = Some s"
    by (auto simp: findMinLowerBound_eq split: option.splits)
  let ?x = "solution (qp (s @ [SetConstraints (getConstraints (bundleCollector (this fr)))]))"
  from f s have le: "length (w_var fr) \<le> length ?x"
    and w: "w_var fr' = take (length (w_var fr)) ?x"
    by (auto simp: findMinLowerBound_eq Let_def split: if_splits)
  from w le show "length (w_var fr') = length (w_var fr)" by simp
  from s w show "\<exists>s. solver (this fr) = Some s \<and>
         w_var fr' =
           take (numberOfParameters (w_var fr))
             (solution (qp (s @ [SetConstraints (getConstraints (bundleCollector (this fr)))]))) @
           drop (numberOfParameters (w_var fr)) (w_var fr) \<and>
         (\<forall>i < numberOfParameters (w_var fr).
            w_var fr' ! i =
            solution (qp (s @ [SetConstraints (getConstraints (bundleCollector (this fr)))])) ! i)"
    by (simp add: numberOfParameters_def)
next
  assume "iteration orc qp fr = Inr (fr', eps)"
  then have "advanced 1 fr fr'" by (rule iteration_advanced)
  then have len: "length (w_var fr') = length (w_var fr)" by (simp add: advanced_def)
  then show "length (w_var fr') = length (w_var fr)" .
  from len show "drop (numberOfParameters (w_var fr)) (w_var fr') =
      drop (numberOfParameters (w_var fr)) (w_var fr)"
    by (simp add: numberOfParameters_def)
next
  assume "nth_pass n orc qp fr = Some (Inr (fr', eps))"
  then have "advanced (Suc n) fr fr'" by (rule nth_pass_advanced)
  then have len: "length (w_var fr') = length (w_var fr)" by (simp add: advanced_def)
  then show "length (w_var fr') = length (w_var fr)" .
  from len show "drop (numberOfParameters (w_var fr)) (w_var fr') =
      drop (numberOfParameters (w_var fr)) (w_var fr)"
    by (simp add: numberOfParameters_def)
qed

theorem findMinLowerBound_writes_the_parameters_witness:
  "\<exists>fr' fr2.
     findMinLowerBound zero_backend (enter (BundleOptimizer_new Parameter_default) [3]) =
       Inr (fr', 0) \<and>
     w_var fr' = take 1 [0, 0] @ drop 1 [3] \<and>
     (0::nat) < 1 \<and> w_var fr' ! 0 = [0, 0] ! 0 \<and>
     length (w_var fr') = length [3::real] \<and>
     iteration five_oracle five_backend (enter (BundleOptimizer_new Parameter_default) [0]) =
       Inr (fr2, 0) \<and>
     nth_pass 0 five_oracle five_backend (enter (BundleOptimizer_new Parameter_default) [0]) =
       Some (Inr (fr2, 0)) \<and>
     length (w_var fr2) = length [0::real]"
proof -
  let ?F = "enter (BundleOptimizer_new Parameter_default) [3]"
  let ?G = "enter (BundleOptimizer_new Parameter_default) [0]"
  let ?s = "[Initialize 2 Continuous, SetObjective (the_objective Parameter_default 1)]"
  have s: "solver (this ?F) = Some ?s"
    by (simp add: enter_def setupQp_eq BundleOptimizer_new_def)
  have F: "w_var ?F = [3]" "w_var ?G = [0]" "numberOfParameters [3] = 1"
    by (simp_all add: enter_def numberOfParameters_def)
  have x: "solution (zero_backend h) = [0, 0]" for h
    by (simp add: zero_backend_def)
  have "\<exists>fr'. findMinLowerBound zero_backend ?F = Inr (fr', 0)"
    by (simp add: findMinLowerBound_eq Let_def s F x) (simp add: zero_backend_def)
  then obtain fr' where f: "findMinLowerBound zero_backend ?F = Inr (fr', 0)" ..
  from scenario_five obtain fr2 where
    g: "iteration five_oracle five_backend ?G = Inr (fr2, 0)" by blast
  then have p: "nth_pass 0 five_oracle five_backend ?G = Some (Inr (fr2, 0))" by simp
  from findMinLowerBound_writes_the_parameters[of zero_backend ?F fr' 0 five_oracle 0 0] f
  have 1: "w_var fr' = take 1 [0, 0] @ drop 1 [3]" "w_var fr' ! 0 = [0, 0] ! 0"
    "length (w_var fr') = length [3::real]"
    unfolding s F x by auto
  from findMinLowerBound_writes_the_parameters[of five_backend ?G fr2 0 five_oracle 0 0] g p
  have 2: "length (w_var fr2) = length [0::real]"
    unfolding F by blast
  from f g p 1 2 show ?thesis by blast
qed

section \<open>The first pass\<close>

text \<open>
  C10. Whatever the oracle, the solver, the weights and the parameters are, \<open>min_gap\<close>
  included, a call of \<open>optimize\<close> that returns has made \<open>k \<ge> 1\<close> passes: the oracle has been
  called \<open>k\<close> times, first at the weights given, \<open>k\<close> hyperplanes have been appended to the
  stored ones, the solver has been asked to solve \<open>k\<close> times after \<open>setupQp\<close>, and the
  weights returned are the first components of the solution of the last \<open>solve\<close>.
\<close>

theorem optimize_makes_a_pass_first:
  assumes "optimize orc qp self w = Some (Inr (res, fr))"
  shows "\<exists>k ps hs s rest h.
     0 < k \<and>
     oracle_calls fr = w # ps \<and> length (w # ps) = k \<and>
     bundleCollector (this fr) = bundleCollector self @ hs \<and> length hs = k \<and>
     solver (setupQp w self) = Some s \<and> solver (this fr) = Some (s @ rest) \<and>
     length (filter is_Solve rest) = k \<and>
     s @ rest = h @ [Solve] \<and>
     w_var fr = take (numberOfParameters w) (solution (qp h))"
proof -
  from assms have "optimize_loop orc qp (enter self w) = Some (Inr fr)"
    by (auto simp: optimize_def split: option.splits sum.splits)
  then obtain n eps where n: "nth_pass n orc qp (enter self w) = Some (Inr (fr, eps))"
    by (auto simp: loop_Inr_iff)
  from nth_pass_advanced[OF n] obtain ps hs s rest where
    a: "oracle_calls fr = oracle_calls (enter self w) @ w_var (enter self w) # ps"
       "Suc (length ps) = Suc n"
       "bundleCollector (this fr) = bundleCollector (this (enter self w)) @ hs" "length hs = Suc n"
       "solver (this (enter self w)) = Some s" "solver (this fr) = Some (s @ rest)"
       "length (filter is_Solve rest) = Suc n"
    unfolding advanced_def by blast
  have e: "oracle_calls (enter self w) = []" "w_var (enter self w) = w"
    "bundleCollector (this (enter self w)) = bundleCollector self"
    "this (enter self w) = setupQp w self"
    by (simp_all add: enter_def bundleCollector_setupQp)
  from nth_pass_last[OF n] obtain f where
    f: "iteration orc qp f = Inr (fr, eps)"
       "n = 0 \<and> f = enter self w \<or> 0 < n \<and> advanced n (enter self w) f" by blast
  then have len: "length (w_var f) = length w"
    by (auto simp: advanced_def e)
  from f(1) obtain h where h: "solver (this fr) = Some (h @ [Solve])"
    "w_var fr = take (length (w_var f)) (solution (qp h))"
  proof (rule iteration_InrE)
    fix L a s0 r
    assume 1: "r = qp (s0 @ [SetConstraints (getConstraints (bundleCollector (this f) @
               [(a, L - (\<Sum>k < length (w_var f). w_var f ! k + a ! k))]))])"
      and 2: "this fr = (this f) \<lparr> bundleCollector := bundleCollector (this f) @
               [(a, L - (\<Sum>k < length (w_var f). w_var f ! k + a ! k))],
          solver := Some (s0 @ [SetConstraints (getConstraints (bundleCollector (this f) @
               [(a, L - (\<Sum>k < length (w_var f). w_var f ! k + a ! k))])), Solve]) \<rparr>"
      and 3: "w_var fr = take (length (w_var f)) (solution r)"
    assume that: "\<And>h. solver (this fr) = Some (h @ [Solve]) \<Longrightarrow>
       w_var fr = take (length (w_var f)) (solution (qp h)) \<Longrightarrow> thesis"
    show thesis
      by (rule that[of "s0 @ [SetConstraints (getConstraints (bundleCollector (this f) @
               [(a, L - (\<Sum>k < length (w_var f). w_var f ! k + a ! k))]))]"])
         (simp_all add: 2 3 1)
  qed
  from a(6) h(1) have sr: "s @ rest = h @ [Solve]" by simp
  have "0 < Suc n \<and>
     oracle_calls fr = w # ps \<and> length (w # ps) = Suc n \<and>
     bundleCollector (this fr) = bundleCollector self @ hs \<and> length hs = Suc n \<and>
     solver (setupQp w self) = Some s \<and> solver (this fr) = Some (s @ rest) \<and>
     length (filter is_Solve rest) = Suc n \<and>
     s @ rest = h @ [Solve] \<and>
     w_var fr = take (numberOfParameters w) (solution (qp h))"
    using a e h(2) len sr by (simp add: numberOfParameters_def)
  then show ?thesis by blast
qed

theorem optimize_makes_a_pass_first_witness:
  "\<exists>fr k ps hs s rest h.
     optimize five_oracle five_backend
       (BundleOptimizer_new (Parameter_default \<lparr> min_gap := 1000000 \<rparr>)) [3] =
       Some (Inr (ReachedMinGap, fr)) \<and>
     0 < k \<and> oracle_calls fr = [3] # ps \<and> length ([3] # ps) = k \<and>
     bundleCollector (this fr) = [] @ hs \<and> length hs = k \<and>
     solver (this fr) = Some (s @ rest) \<and> length (filter is_Solve rest) = k \<and>
     s @ rest = h @ [Solve] \<and>
     w_var fr = take 1 (solution (five_backend h)) \<and> w_var fr = [0]"
proof -
  let ?S = "BundleOptimizer_new (Parameter_default \<lparr> min_gap := 1000000 \<rparr>)"
  let ?F = "enter ?S [3]"
  have F: "w_var ?F = [3]" "minValue ?F = Infinity" "oracle_calls ?F = []"
    "parameter (this ?F) = Parameter_default \<lparr> min_gap := 1000000 \<rparr>"
    "bundleCollector ?S = []" "numberOfParameters [3] = 1"
    by (simp_all add: enter_def setupQp_eq BundleOptimizer_new_def numberOfParameters_def)
  have s: "solver (this ?F) = Some [Initialize 2 Continuous,
      SetObjective (the_objective (Parameter_default \<lparr> min_gap := 1000000 \<rparr>) 1)]"
    by (simp add: enter_def setupQp_eq BundleOptimizer_new_def)
  have oa: "oracle_answer five_oracle ?F = (5, [0])"
    by (simp add: oracle_answer_def five_oracle_def F Weights_def numberOfWeights_def)
  have x: "solution (five_backend h) = [0, 5]" "solved_value (five_backend h) = 5" for h
    by (simp_all add: five_backend_def)
  have mv: "new_minValue (minValue ?F) (regularized (parameter (this ?F)) 5 (w_var ?F)) = 8"
    by (simp only: F) (simp add: new_minValue_def regularized_def Parameter_default_def)
  from iteration_InrI[OF oa _ s, of five_backend] obtain fr where
    fr: "iteration five_oracle five_backend ?F = Inr (fr, 8 - 5)"
    unfolding mv x by (auto simp: F)
  from iteration_advanced[OF fr] have "parameter (this fr) = parameter (this ?F)"
    by (simp add: advanced_def)
  then have "(8 - 5 :: real) \<le> min_gap (parameter (this fr))"
    by (simp add: F)
  from scenario_optimize[OF fr this]
  have run: "optimize five_oracle five_backend ?S [3] = Some (Inr (ReachedMinGap, fr))" .
  from optimize_makes_a_pass_first[OF run] obtain k ps hs s rest h where
    r: "0 < k" "oracle_calls fr = [3] # ps" "length ([3] # ps) = k"
    "bundleCollector (this fr) = bundleCollector ?S @ hs" "length hs = k"
    "solver (this fr) = Some (s @ rest)" "length (filter is_Solve rest) = k"
    "s @ rest = h @ [Solve]"
    "w_var fr = take (numberOfParameters [3]) (solution (five_backend h))"
    by blast
  from r(4) have 1: "bundleCollector (this fr) = [] @ hs" by (simp only: F)
  from r(9) have 2: "w_var fr = take 1 (solution (five_backend h))" by (simp only: F)
  then have 3: "w_var fr = [0]" by (simp add: x)
  from run r(1,2,3,5,6,7,8) 1 2 3 show ?thesis by blast
qed

end
